theory Spec2Isabelle
  imports Complex_Main
begin

section \<open>Conventions\<close>

text \<open>
  The development embeds the special priors of \<^verbatim>\<open>jaxns/framework/special_priors.py\<close> and the
  serialisation bridge of \<^verbatim>\<open>jaxns/internals/namedtuple_utils.py\<close>.

  \<^item> Floating-point numbers are read as real numbers: every statement about a transform is a
    statement in exact arithmetic, with \<open>ln\<close> and \<open>exp\<close> for \<^verbatim>\<open>jnp.log\<close> and \<^verbatim>\<open>jnp.exp\<close>.
    A statement that mentions \<open>ln x\<close> carries the hypothesis that puts \<open>x\<close> in the domain of
    the logarithm.
  \<^item> An array of shape \<^verbatim>\<open>(m,) + S\<close> is the list of its \<open>m\<close> rows along the leading axis. A row
    (an array of shape \<open>S\<close>) is read through its elements: a function from the multi-index into
    the trailing axes to the element there.
  \<^item> A Python exception is a value of type \<open>error\<close>; a function that can raise returns
    \<open>error + 'a\<close>, with \<open>Inl\<close> for the exception. \<open>NotModelled\<close> is not an exception: it
    marks an argument of a library function on which the model does not say what the
    library does.
\<close>

datatype error =
    ValueError string
  | TypeError string
  | KeyError string
  | AttributeError
  | NotImplementedError
  | ModuleNotFoundError
  | NotModelled

type_synonym row = "nat list \<Rightarrow> real"

record arr =
  shape :: "nat list"
  elem :: row

section \<open>Broadcasting\<close>

text \<open>
  \<^verbatim>\<open>jnp.broadcast_arrays\<close> follows the broadcasting rule of numpy: the two shapes are
  aligned at their last axis; two extents are compatible when they are equal or one of them
  is 1; a missing leading axis counts as extent 1. \<open>broadcast_dims\<close> walks the two shapes from
  the last axis on (the shapes are given reversed).
\<close>

fun broadcast_dims :: "nat list \<Rightarrow> nat list \<Rightarrow> nat list option" where
  "broadcast_dims [] ys = Some ys"
| "broadcast_dims (x # xs) [] = Some (x # xs)"
| "broadcast_dims (x # xs) (y # ys) =
     (case broadcast_dims xs ys of
        None \<Rightarrow> None
      | Some r \<Rightarrow>
          if x = y then Some (x # r)
          else if x = 1 then Some (y # r)
          else if y = 1 then Some (x # r)
          else None)"

definition broadcast_shapes :: "nat list \<Rightarrow> nat list \<Rightarrow> nat list option" where
  "broadcast_shapes s t = map_option rev (broadcast_dims (rev s) (rev t))"

text \<open>
  The element of the broadcast array at a multi-index: the leading axes the source does not
  have are dropped, and an axis of extent 1 is read at position 0.
\<close>

definition broadcast_to :: "arr \<Rightarrow> nat list \<Rightarrow> arr" where
  "broadcast_to a s =
     \<lparr>shape = s,
      elem = (\<lambda>idx. elem a (map2 (\<lambda>d i. if d = 1 then 0 else i) (shape a)
                            (drop (length idx - length (shape a)) idx)))\<rparr>"

definition broadcast_arrays :: "arr \<Rightarrow> arr \<Rightarrow> error + (arr \<times> arr)" where
  "broadcast_arrays a b =
     (if shape a = shape b then Inr (a, b)
      else case broadcast_shapes (shape a) (shape b) of
             None \<Rightarrow> Inl (ValueError ''Incompatible shapes for broadcasting'')
           | Some s \<Rightarrow> Inr (broadcast_to a s, broadcast_to b s))"

text \<open>
  An elementwise operation between an array of shape \<^verbatim>\<open>(m,) + S\<close> and an array of shape
  \<^verbatim>\<open>(n, 1, ..., 1)\<close> pairs the rows when \<open>m = n\<close>, repeats the single row when one of the two
  extents is 1, and fails otherwise.
\<close>

definition lead_broadcast :: "('a \<Rightarrow> 'b \<Rightarrow> 'c) \<Rightarrow> 'a list \<Rightarrow> 'b list \<Rightarrow> error + 'c list" where
  "lead_broadcast f xs ys =
     (if length xs = length ys then Inr (map2 f xs ys)
      else if length xs = 1 then Inr (map (f (hd xs)) ys)
      else if length ys = 1 then Inr (map (\<lambda>x. f x (hd ys)) xs)
      else Inl (TypeError ''incompatible shapes for broadcasting''))"

section \<open>Bernoulli\<close>

text \<open>
  \<^verbatim>\<open>Bernoulli\<close> wraps the Bernoulli distribution of the probability library. \<open>probs\<close> is what
  \<^verbatim>\<open>_probs_parameter_no_checks\<close> returns: the probability of the outcome 1 at each element,
  whichever of \<^verbatim>\<open>logits\<close> and \<^verbatim>\<open>probs\<close> the prior was built from. Samples are integers
  (0 or 1), and every operation is elementwise.
\<close>

record bernoulli =
  probs :: row

text \<open>\<^verbatim>\<open>_quantile\<close>: \<^verbatim>\<open>jnp.less(U, probs)\<close>, cast to the sample type.\<close>

definition Bernoulli_quantile :: "bernoulli \<Rightarrow> row \<Rightarrow> (nat list \<Rightarrow> int)" where
  "Bernoulli_quantile b U = (\<lambda>idx. if U idx < probs b idx then 1 else 0)"

definition Bernoulli_forward :: "bernoulli \<Rightarrow> row \<Rightarrow> (nat list \<Rightarrow> int)" where
  "Bernoulli_forward b U = Bernoulli_quantile b U"

text \<open>
  \<^verbatim>\<open>_inverse\<close> returns \<^verbatim>\<open>self.dist.cdf(X)\<close>. The method \<^verbatim>\<open>cdf\<close> belongs to the library, and is a
  parameter of the model: a function of the distribution and the argument that returns an
  array or raises.
\<close>

definition Bernoulli_inverse ::
  "(bernoulli \<Rightarrow> (nat list \<Rightarrow> int) \<Rightarrow> error + row) \<Rightarrow> bernoulli \<Rightarrow> (nat list \<Rightarrow> int) \<Rightarrow> error + row" where
  "Bernoulli_inverse cdf b X = cdf b X"

text \<open>
  The cumulative distribution function of the Bernoulli distribution, the probability of an
  outcome at most \<open>x\<close>: what the library's \<^verbatim>\<open>cdf\<close> is when it implements the function of that
  name.
\<close>

definition bernoulli_cdf :: "bernoulli \<Rightarrow> (nat list \<Rightarrow> int) \<Rightarrow> error + row" where
  "bernoulli_cdf b X =
     Inr (\<lambda>idx. if X idx < 0 then 0 else if X idx < 1 then 1 - probs b idx else 1)"

text \<open>The prior with probability \<open>1/2\<close> everywhere.\<close>

definition fair_coin :: bernoulli where
  "fair_coin = \<lparr>probs = (\<lambda>idx. 1 / 2)\<rparr>"

section \<open>Beta\<close>

text \<open>
  A concentration parameter as the constructor's \<^verbatim>\<open>isinstance\<close> tests see it: a Python
  \<^verbatim>\<open>float\<close> or \<^verbatim>\<open>int\<close>, a numpy array (its elements, flattened), or anything else (\<^verbatim>\<open>None\<close>, an
  array of another library, a list).
\<close>

datatype param =
    PyNumber real
  | NumpyArray "real list"
  | OtherParam "real list"

text \<open>The distribution of the library that \<^verbatim>\<open>self.dist\<close> is.\<close>

datatype family = Kumaraswamy | GeneralBeta

record beta =
  family :: family
  concentration0 :: param
  concentration1 :: param

text \<open>
  \<^verbatim>\<open>Beta.__init__\<close>: the four tests in the order of the source. \<^verbatim>\<open>np.all\<close> holds when every
  element of the array passes.
\<close>

definition Beta_init :: "param \<Rightarrow> param \<Rightarrow> beta" where
  "Beta_init c0 c1 =
     (if (case c0 of PyNumber v \<Rightarrow> v = 1 | _ \<Rightarrow> False)
      then \<lparr>family = Kumaraswamy, concentration0 = c0, concentration1 = c1\<rparr>
      else if (case c1 of PyNumber v \<Rightarrow> v = 1 | _ \<Rightarrow> False)
      then \<lparr>family = Kumaraswamy, concentration0 = c0, concentration1 = c1\<rparr>
      else if (case c0 of NumpyArray vs \<Rightarrow> list_all (\<lambda>v. v = 1) vs | _ \<Rightarrow> False)
      then \<lparr>family = Kumaraswamy, concentration0 = c0, concentration1 = c1\<rparr>
      else if (case c1 of NumpyArray vs \<Rightarrow> list_all (\<lambda>v. v = 1) vs | _ \<Rightarrow> False)
      then \<lparr>family = Kumaraswamy, concentration0 = c0, concentration1 = c1\<rparr>
      else \<lparr>family = GeneralBeta, concentration0 = c0, concentration1 = c1\<rparr>)"

text \<open>
  A parameter broadcast to a batch of \<open>m\<close> elements (flattened): a number is repeated, an array
  has the size of the batch or a single element.
\<close>

fun param_values :: "nat \<Rightarrow> param \<Rightarrow> real list option" where
  "param_values m (PyNumber v) = Some (replicate m v)"
| "param_values m (NumpyArray vs) =
     (if length vs = m then Some vs
      else if length vs = 1 then Some (replicate m (hd vs))
      else None)"
| "param_values m (OtherParam vs) =
     (if length vs = m then Some vs
      else if length vs = 1 then Some (replicate m (hd vs))
      else None)"

text \<open>
  The quantile of the Kumaraswamy distribution, in closed form, as the library computes it:
  with \<open>a\<close> for \<^verbatim>\<open>concentration1\<close> and \<open>b\<close> for \<^verbatim>\<open>concentration0\<close>, the cumulative distribution
  function is \<open>1 - (1 - x^a)^b\<close>.
\<close>

definition kumaraswamy_quantile :: "real \<Rightarrow> real \<Rightarrow> real \<Rightarrow> real" where
  "kumaraswamy_quantile a b u = (1 - (1 - u) powr (1 / b)) powr (1 / a)"

text \<open>
  \<^verbatim>\<open>_quantile\<close>: \<^verbatim>\<open>self.dist.quantile(U)\<close>, elementwise over what \<open>U\<close> and the two parameters
  broadcast to; \<open>U\<close> is given flattened. Two sizes broadcast when they are equal or one of
  them is 1. The quantile of the general Beta distribution (the inverse of the regularised
  incomplete beta function) is a parameter, \<open>beta_quantile\<close>, that takes \<^verbatim>\<open>concentration1\<close>,
  \<^verbatim>\<open>concentration0\<close> and \<open>u\<close>.
\<close>

definition elementwise3 :: "(real \<Rightarrow> real \<Rightarrow> real \<Rightarrow> real) \<Rightarrow> real list \<Rightarrow> real list \<Rightarrow> real list \<Rightarrow> real list" where
  "elementwise3 f xs ys zs = map (\<lambda>(x, y, z). f x y z) (zip xs (zip ys zs))"

fun param_size :: "param \<Rightarrow> nat" where
  "param_size (PyNumber v) = 1"
| "param_size (NumpyArray vs) = length vs"
| "param_size (OtherParam vs) = length vs"

definition broadcast_size :: "nat \<Rightarrow> nat \<Rightarrow> nat option" where
  "broadcast_size m n = (if m = n \<or> n = 1 then Some m else if m = 1 then Some n else None)"

definition Beta_quantile ::
  "(real \<Rightarrow> real \<Rightarrow> real \<Rightarrow> real) \<Rightarrow> beta \<Rightarrow> real list \<Rightarrow> error + real list" where
  "Beta_quantile beta_quantile d U =
     (case Option.bind (broadcast_size (length U) (param_size (concentration1 d)))
                       (\<lambda>m. broadcast_size m (param_size (concentration0 d))) of
        None \<Rightarrow> Inl (ValueError ''Incompatible shapes for broadcasting'')
      | Some m \<Rightarrow>
          (case (param_values m (concentration1 d), param_values m (concentration0 d),
                 param_values m (NumpyArray U)) of
             (Some a, Some b, Some us) \<Rightarrow>
               (case family d of
                  Kumaraswamy \<Rightarrow> Inr (elementwise3 kumaraswamy_quantile a b us)
                | GeneralBeta \<Rightarrow> Inr (elementwise3 beta_quantile a b us))
           | _ \<Rightarrow> Inl (ValueError ''Incompatible shapes for broadcasting'')))"

definition Beta_forward ::
  "(real \<Rightarrow> real \<Rightarrow> real \<Rightarrow> real) \<Rightarrow> beta \<Rightarrow> real list \<Rightarrow> error + real list" where
  "Beta_forward beta_quantile d U = Beta_quantile beta_quantile d U"

text \<open>A parameter that is 1 as a whole: the number 1, or a numpy array of ones.\<close>

fun whole_one :: "param \<Rightarrow> bool" where
  "whole_one (PyNumber v) = (v = 1)"
| "whole_one (NumpyArray vs) = list_all (\<lambda>v. v = 1) vs"
| "whole_one (OtherParam vs) = False"

section \<open>Categorical\<close>

text \<open>
  \<^verbatim>\<open>Categorical\<close> wraps the categorical distribution of the probability library. \<open>logits\<close> is
  what \<^verbatim>\<open>_logits_parameter_no_checks\<close> returns, of shape \<^verbatim>\<open>[..., N]\<close>: the list of the rows
  of \<open>N\<close> logits, one row for each element of the batch (the batch axes flattened, as
  \<^verbatim>\<open>_quantile_cdf\<close> does itself). Arrays of the batch shape are flattened in the same order.
  \<open>parametrisation\<close> is the string given to the constructor, which does not check it.
\<close>

record categorical =
  logits :: "real list list"
  parametrisation :: string

text \<open>
  The cumulative distribution function of the categorical distribution with the logits \<open>ls\<close>:
  the probabilities are the softmax of the logits, and the cumulative probability of the
  category \<open>k\<close> is the sum of the probabilities of the categories \<open>0, ..., k\<close>; it is 0 below
  the first category, and 1 from the last category on.
\<close>

definition softmax :: "real list \<Rightarrow> real list" where
  "softmax ls = map (\<lambda>l. exp l / sum_list (map exp ls)) ls"

definition categorical_cdf1 :: "real list \<Rightarrow> int \<Rightarrow> real" where
  "categorical_cdf1 ls k =
     (if k < 0 then 0
      else sum_list (take (nat (min k (int (length ls) - 1)) + 1) (softmax ls)))"

definition categorical_cdf :: "categorical \<Rightarrow> int list \<Rightarrow> error + real list" where
  "categorical_cdf c X = Inr (map2 categorical_cdf1 (logits c) X)"

text \<open>
  \<^verbatim>\<open>_inverse\<close>: for the parametrisation \<^verbatim>\<open>'cdf'\<close> it returns \<^verbatim>\<open>self.dist.cdf(X)\<close>, and it raises
  for every other. The method \<^verbatim>\<open>cdf\<close> belongs to the library, and is a parameter of the
  model: a function of the distribution and the argument that returns an array or raises.
\<close>

definition Categorical_inverse ::
  "(categorical \<Rightarrow> int list \<Rightarrow> error + real list) \<Rightarrow> categorical \<Rightarrow> int list \<Rightarrow> error + real list" where
  "Categorical_inverse cdf c X =
     (if parametrisation c = ''cdf'' then cdf c X
      else Inl NotImplementedError)"

text \<open>
  Modelled from the spec: \<^verbatim>\<open>cumulative_logsumexp\<close> of \<^verbatim>\<open>jaxns.internals.log_semiring\<close>, which
  is not among the sources. The spec calls it a numerically stable cumulative log-sum-exp
  along the category axis: entry \<open>i\<close> is the logarithm of the sum of the exponentials of the
  entries \<open>0, ..., i\<close>.
\<close>

fun cumulative_logsumexp_from :: "real \<Rightarrow> real list \<Rightarrow> real list" where
  "cumulative_logsumexp_from acc [] = []"
| "cumulative_logsumexp_from acc (l # ls) =
     ln (acc + exp l) # cumulative_logsumexp_from (acc + exp l) ls"

definition cumulative_logsumexp :: "real list \<Rightarrow> real list" where
  "cumulative_logsumexp ls = cumulative_logsumexp_from 0 ls"

text \<open>
  \<^verbatim>\<open>jnp.searchsorted(a, v, side='left')\<close>, from the library: for a sorted array \<open>a\<close>, the index
  \<open>i\<close> with \<open>a[i-1] < v \<le> a[i]\<close>, that is the number of leading entries below \<open>v\<close>.
\<close>

definition searchsorted_left :: "real list \<Rightarrow> real \<Rightarrow> nat" where
  "searchsorted_left a v = length (takeWhile (\<lambda>x. x < v) a)"

text \<open>
  \<^verbatim>\<open>_quantile_cdf\<close>. The cumulative logits of a row are normalised by their last entry;
  \<^verbatim>\<open>vmap\<close> maps the search over the flattened batch and raises when the two arguments differ
  in size.
\<close>

definition normalised_cum_logits :: "real list \<Rightarrow> real list" where
  "normalised_cum_logits ls =
     (let cum_logits = cumulative_logsumexp ls
      in map (\<lambda>x. x - last cum_logits) cum_logits)"

definition Categorical_quantile_cdf :: "categorical \<Rightarrow> real list \<Rightarrow> error + nat list" where
  "Categorical_quantile_cdf c U =
     (let cum_logits_flat = map normalised_cum_logits (logits c);
          log_U_flat = map ln U
      in if length cum_logits_flat \<noteq> length log_U_flat
         then Inl (ValueError ''vmap got inconsistent sizes for array axes to be mapped'')
         else Inr (map2 (\<lambda>a v. searchsorted_left a v) cum_logits_flat log_U_flat))"

text \<open>
  \<^verbatim>\<open>_quantile_gumbelmax\<close>. The base shape has one more axis of size \<open>N\<close>: the uniforms of the
  batch element \<open>b\<close> are the entries \<open>b * N, ..., b * N + N - 1\<close> of the flattened \<open>U\<close>.
  \<^verbatim>\<open>jnp.argmax\<close> returns the first index of the largest entry, and raises on an axis of
  size 0. For a \<open>U\<close> that has not the size of the base shape the model does not say what the
  addition of the noise to the logits does.
\<close>

fun argmax_from :: "nat \<Rightarrow> real \<Rightarrow> nat \<Rightarrow> real list \<Rightarrow> nat" where
  "argmax_from best v i [] = best"
| "argmax_from best v i (x # xs) =
     (if v < x then argmax_from i x (Suc i) xs else argmax_from best v (Suc i) xs)"

definition argmax :: "real list \<Rightarrow> error + nat" where
  "argmax xs =
     (case xs of
        [] \<Rightarrow> Inl (ValueError ''attempt to get argmax of an empty sequence'')
      | x # rest \<Rightarrow> Inr (argmax_from 0 x 1 rest))"

fun sequence :: "(error + 'a) list \<Rightarrow> error + 'a list" where
  "sequence [] = Inr []"
| "sequence (r # rs) =
     (case r of
        Inl e \<Rightarrow> Inl e
      | Inr x \<Rightarrow> (case sequence rs of Inl e \<Rightarrow> Inl e | Inr xs \<Rightarrow> Inr (x # xs)))"

definition Categorical_quantile_gumbelmax :: "categorical \<Rightarrow> real list \<Rightarrow> error + nat list" where
  "Categorical_quantile_gumbelmax c U =
     (if length U \<noteq> sum_list (map length (logits c)) then Inl NotModelled
      else sequence
             (map (\<lambda>(b, ls).
                     let z = map (\<lambda>u. - ln (- ln u)) (take (length ls) (drop (b * length ls) U))
                     in argmax (map2 (+) ls z))
                  (enumerate 0 (logits c))))"

text \<open>
  \<^verbatim>\<open>_forward\<close>: for a parametrisation that is neither of the two, the method falls off its
  end and returns \<^verbatim>\<open>None\<close>.
\<close>

definition Categorical_forward :: "categorical \<Rightarrow> real list \<Rightarrow> error + nat list option" where
  "Categorical_forward c U =
     (if parametrisation c = ''gumbel_max''
      then map_sum id Some (Categorical_quantile_gumbelmax c U)
      else if parametrisation c = ''cdf'' then map_sum id Some (Categorical_quantile_cdf c U)
      else Inr None)"

section \<open>ForcedIdentifiability\<close>

record forced_identifiability =
  n :: int
  low :: arr
  high :: arr
  fix_left :: bool
  fix_right :: bool

text \<open>\<^verbatim>\<open>ForcedIdentifiability.__init__\<close>: the check of \<open>n\<close> comes first, then the broadcast.\<close>

definition ForcedIdentifiability_init ::
  "int \<Rightarrow> arr \<Rightarrow> arr \<Rightarrow> bool \<Rightarrow> bool \<Rightarrow> error + forced_identifiability" where
  "ForcedIdentifiability_init n0 low0 high0 fl fr =
     (let n_min = (if fl then 1 else 0) + (if fr then 1 else 0) in
      if n0 < n_min then Inl (ValueError ''n too small for fix_left and fix_right'')
      else case broadcast_arrays low0 high0 of
             Inl e \<Rightarrow> Inl e
           | Inr (l, h) \<Rightarrow>
               Inr \<lparr>n = n0, low = l, high = h, fix_left = fl, fix_right = fr\<rparr>)"

text \<open>
  The number of free values: each of \<^verbatim>\<open>_base_shape\<close>, \<^verbatim>\<open>_log_prob\<close>, \<^verbatim>\<open>_cdf\<close> and \<^verbatim>\<open>_quantile\<close>
  starts from \<open>n\<close> and takes one off for each fixed end.
\<close>

definition n_free :: "forced_identifiability \<Rightarrow> int" where
  "n_free fi =
     (let m = n fi;
          m = (if fix_left fi then m - 1 else m);
          m = (if fix_right fi then m - 1 else m)
      in m)"

text \<open>
  \<^verbatim>\<open>gammaln\<close> is the logarithm of the Gamma function, from the library. The prior calls it at
  the integer \<open>n_free + 1\<close> only, which is positive for a prior that was constructed; there
  its value is the logarithm of the factorial of \<open>n_free\<close>.
\<close>

definition gammaln :: "int \<Rightarrow> real" where
  "gammaln m = ln (fact (nat (m - 1)))"

text \<open>
  \<^verbatim>\<open>jnp.cumsum(., axis=0)\<close> and \<^verbatim>\<open>jnp.diff(., prepend=0, axis=0)\<close> along the leading axis, over
  any kind of row: the addition, the subtraction and the zero row are parameters.
\<close>

fun cumsum_with :: "('a \<Rightarrow> 'a \<Rightarrow> 'a) \<Rightarrow> 'a \<Rightarrow> 'a list \<Rightarrow> 'a list" where
  "cumsum_with add acc [] = []"
| "cumsum_with add acc (x # xs) = add acc x # cumsum_with add (add acc x) xs"

definition diff_with :: "('a \<Rightarrow> 'a \<Rightarrow> 'a) \<Rightarrow> 'a \<Rightarrow> 'a list \<Rightarrow> 'a list" where
  "diff_with sub z xs = map2 sub xs (z # xs)"

definition cumsum :: "row list \<Rightarrow> row list" where
  "cumsum rs = cumsum_with (\<lambda>a b idx. a idx + b idx) (\<lambda>idx. 0) rs"

definition diff_prepend0 :: "row list \<Rightarrow> row list" where
  "diff_prepend0 rs = diff_with (\<lambda>a b idx. a idx - b idx) (\<lambda>idx. 0) rs"

text \<open>\<^verbatim>\<open>_base_shape\<close> and \<^verbatim>\<open>_shape\<close>.\<close>

definition ForcedIdentifiability_base_shape :: "forced_identifiability \<Rightarrow> int \<times> nat list" where
  "ForcedIdentifiability_base_shape fi = (n_free fi, shape (low fi))"

definition ForcedIdentifiability_shape :: "forced_identifiability \<Rightarrow> int \<times> nat list" where
  "ForcedIdentifiability_shape fi = (n fi, shape (low fi))"

text \<open>
  \<^verbatim>\<open>_log_prob\<close>. The argument \<open>X\<close> is not read: there is no check that it lies between \<open>low\<close>
  and \<open>high\<close>. The result has the shape of \<open>low\<close>.
\<close>

definition ForcedIdentifiability_log_prob :: "forced_identifiability \<Rightarrow> row list \<Rightarrow> row" where
  "ForcedIdentifiability_log_prob fi X =
     (let m = n_free fi;
          log_n_fac = gammaln (m + 1);
          diff = (\<lambda>idx. elem (high fi) idx - elem (low fi) idx)
      in (\<lambda>idx. - log_n_fac - real_of_int m * ln (diff idx)))"

text \<open>\<^verbatim>\<open>_quantile\<close>, the forward transform.\<close>

definition ForcedIdentifiability_quantile ::
  "forced_identifiability \<Rightarrow> row list \<Rightarrow> error + row list" where
  "ForcedIdentifiability_quantile fi U =
     (let m = n_free fi;
          log_x = map (\<lambda>u idx. ln (u idx)) U;
          k = map real_of_int [1..m]
      in case lead_broadcast (\<lambda>x kk idx. x idx / kk) log_x k of
           Inl e \<Rightarrow> Inl e
         | Inr inner \<Rightarrow>
             let log_output = rev (cumsum (rev inner));
                 output = map (\<lambda>s idx. elem (low fi) idx
                                 + (elem (high fi) idx - elem (low fi) idx) * exp (s idx))
                              log_output;
                 output = (if fix_left fi then [elem (low fi)] @ output else output);
                 output = (if fix_right fi then output @ [elem (high fi)] else output)
             in Inr output)"

text \<open>\<^verbatim>\<open>_cdf\<close>, the inverse transform. \<^verbatim>\<open>X[1:]\<close> and \<^verbatim>\<open>X[:-1]\<close> of an empty array are empty.\<close>

definition ForcedIdentifiability_cdf ::
  "forced_identifiability \<Rightarrow> row list \<Rightarrow> error + row list" where
  "ForcedIdentifiability_cdf fi X0 =
     (let X = (if fix_left fi then tl X0 else X0);
          X = (if fix_right fi then butlast X else X);
          m = n_free fi;
          log_output = map (\<lambda>x idx. ln ((x idx - elem (low fi) idx)
                                          / (elem (high fi) idx - elem (low fi) idx))) X;
          inner = rev (diff_prepend0 (rev log_output));
          k = map real_of_int [1..m]
      in case lead_broadcast (\<lambda>x kk idx. x idx * kk) inner k of
           Inl e \<Rightarrow> Inl e
         | Inr log_x \<Rightarrow> Inr (map (\<lambda>x idx. exp (x idx)) log_x))"

definition ForcedIdentifiability_forward ::
  "forced_identifiability \<Rightarrow> row list \<Rightarrow> error + row list" where
  "ForcedIdentifiability_forward fi U = ForcedIdentifiability_quantile fi U"

definition ForcedIdentifiability_inverse ::
  "forced_identifiability \<Rightarrow> row list \<Rightarrow> error + row list" where
  "ForcedIdentifiability_inverse fi X = ForcedIdentifiability_cdf fi X"

text \<open>
  The two ends of a sample: what \<^verbatim>\<open>_quantile\<close> puts around the free values, and what \<^verbatim>\<open>_cdf\<close>
  takes off again.
\<close>

definition with_ends :: "forced_identifiability \<Rightarrow> row list \<Rightarrow> row list" where
  "with_ends fi core =
     (let output = (if fix_left fi then [elem (low fi)] @ core else core);
          output = (if fix_right fi then output @ [elem (high fi)] else output)
      in output)"

definition strip_ends :: "forced_identifiability \<Rightarrow> 'a list \<Rightarrow> 'a list" where
  "strip_ends fi X0 =
     (let X = (if fix_left fi then tl X0 else X0);
          X = (if fix_right fi then butlast X else X)
      in X)"

text \<open>
  The sums of the suffixes of a list: what the cumulative sum of the reversed list is, read
  backwards.
\<close>

fun suffix_sums :: "real list \<Rightarrow> real list" where
  "suffix_sums [] = []"
| "suffix_sums (x # xs) = (x + sum_list xs) # suffix_sums xs"

text \<open>
  A scalar as an array of shape \<^verbatim>\<open>()\<close>, and the prior
  \<^verbatim>\<open>ForcedIdentifiability(n=3, low=0.0, high=1.0, fix_left=True, fix_right=True)\<close>.
\<close>

definition scalar :: "real \<Rightarrow> arr" where
  "scalar v = \<lparr>shape = [], elem = (\<lambda>idx. v)\<rparr>"

definition scenario :: forced_identifiability where
  "scenario = \<lparr>n = 3, low = scalar 0, high = scalar 1, fix_left = True, fix_right = True\<rparr>"

section \<open>Poisson\<close>

text \<open>
  An array of numbers as the tests on \<^verbatim>\<open>np.size\<close> and the calls of \<^verbatim>\<open>ravel\<close> and \<^verbatim>\<open>reshape\<close>
  see it: its shape, and its elements in the order of \<^verbatim>\<open>ravel\<close>. A scalar has the shape \<^verbatim>\<open>()\<close>
  and one element. The rate of the prior, \<^verbatim>\<open>self.dist.rate_parameter()\<close>, is such an array.
\<close>

datatype farray = FArray (fshape: "nat list") (ravel: "real list")

definition np_size :: "farray \<Rightarrow> nat" where
  "np_size x = length (ravel x)"

record poisson =
  rate :: farray

text \<open>
  \<^verbatim>\<open>lax.igammac\<close>, the regularised upper incomplete gamma function of the library, is a
  parameter of the model, \<open>igammac\<close>. The state of the search is the tuple
  \<^verbatim>\<open>(a, b, f_a, f_b)\<close>.
\<close>

type_synonym bracket = "real \<times> real \<times> real \<times> real"

definition smooth_cdf :: "(real \<Rightarrow> real \<Rightarrow> real) \<Rightarrow> real \<Rightarrow> real \<Rightarrow> real" where
  "smooth_cdf igammac x rate0 = igammac (x + 1) rate0"

definition fixed_point_update ::
  "(real \<Rightarrow> real \<Rightarrow> real) \<Rightarrow> real \<Rightarrow> real \<Rightarrow> bracket \<Rightarrow> nat \<Rightarrow> bracket \<times> real" where
  "fixed_point_update igammac U rate0 x args =
     (case x of (a, b, f_a, f_b) \<Rightarrow>
        let c = 0.5 * (a + b);
            f_c = smooth_cdf igammac c rate0;
            left = (f_c > U);
            a1 = (if left then a else c);
            f_a1 = (if left then f_a else f_c);
            b1 = (if left then c else b);
            f_b1 = (if left then f_c else f_b);
            a2 = a;
            f_a2 = f_a;
            b2 = b * 2;
            f_b2 = smooth_cdf igammac b2 rate0;
            bounded = (f_b \<ge> U);
            a' = (if bounded then a1 else a2);
            b' = (if bounded then b1 else b2);
            f_a' = (if bounded then f_a1 else f_a2);
            f_b' = (if bounded then f_b1 else f_b2)
        in ((a', b', f_a', f_b'), 0.5 * (a' + b')))"

text \<open>\<^verbatim>\<open>lax.scan\<close>: the carried state after the last element, and the list of the outputs.\<close>

fun scan :: "('s \<Rightarrow> 'x \<Rightarrow> 's \<times> 'y) \<Rightarrow> 's \<Rightarrow> 'x list \<Rightarrow> 's \<times> 'y list" where
  "scan f init [] = (init, [])"
| "scan f init (x # xs) =
     (case f init x of (s, y) \<Rightarrow>
        case scan f s xs of (final, ys) \<Rightarrow> (final, y # ys))"

text \<open>
  The search proper: what \<^verbatim>\<open>_poisson_quantile_bisection\<close> does after its two tests, on a target
  \<open>U\<close> and a rate of at most one element each. The scan runs over \<^verbatim>\<open>jnp.arange(max_iter)\<close>.
  Its state starts with \<^verbatim>\<open>a = jnp.asarray(0.)\<close>, of shape \<^verbatim>\<open>()\<close>, and one update gives \<open>a\<close> the
  shape that \<open>a\<close>, the rate and \<open>U\<close> broadcast to. \<^verbatim>\<open>lax.scan\<close> refuses, with a \<^verbatim>\<open>TypeError\<close>, an
  update that changes the shape of the state: the search runs only on a target and a rate
  that both have the shape \<^verbatim>\<open>()\<close>.
\<close>

definition bisection_scalar ::
  "(real \<Rightarrow> real \<Rightarrow> real) \<Rightarrow> farray \<Rightarrow> farray \<Rightarrow> nat \<Rightarrow> error + (real \<times> real list)" where
  "bisection_scalar igammac U rate1 max_iter =
     (if fshape U = [] \<and> fshape rate1 = []
      then
        let u = hd (ravel U);
            r = hd (ravel rate1);
            a = 0;
            b = r;
            f_a = 0;
            f_b = smooth_cdf igammac b r;
            init = (a, b, f_a, f_b)
        in case scan (fixed_point_update igammac u r) init [0..<max_iter] of
             ((a, b, f_a, f_b), x_results) \<Rightarrow> Inr (0.5 * (a + b), x_results)
      else Inl (TypeError ''scan carry input and carry output must have equal types''))"

text \<open>
  \<^verbatim>\<open>_poisson_quantile_bisection\<close>. The rate is raised to \<^verbatim>\<open>1e-5\<close>, and a rate of more than one
  element is refused. A target of more than one element is flattened and the function is
  mapped over its elements, each of shape \<^verbatim>\<open>()\<close>, with the raised rate (raising it again
  changes nothing, and both tests fail in the inner call); the results take the shape of the
  target. A target of at most one element goes to the search as it is.
\<close>

definition poisson_quantile_bisection ::
  "(real \<Rightarrow> real \<Rightarrow> real) \<Rightarrow> farray \<Rightarrow> farray \<Rightarrow> nat
     \<Rightarrow> error + (farray \<times> real list list)" where
  "poisson_quantile_bisection igammac U rate0 max_iter =
     (let rate1 = FArray (fshape rate0) (map (\<lambda>r. max r (1 / 100000)) (ravel rate0))
      in if np_size rate1 > 1 then Inl (ValueError ''Rate must be a scalar'')
         else if np_size U > 1
         then (case sequence (map (\<lambda>u. bisection_scalar igammac (FArray [] [u]) rate1 max_iter)
                                  (ravel U)) of
                 Inl e \<Rightarrow> Inl e
               | Inr results \<Rightarrow> Inr (FArray (fshape U) (map fst results), map snd results))
         else (case bisection_scalar igammac U rate1 max_iter of
                 Inl e \<Rightarrow> Inl e
               | Inr (c, x_results) \<Rightarrow> Inr (FArray [] [c], [x_results])))"

text \<open>
  \<^verbatim>\<open>astype(int_type)\<close>. \<^verbatim>\<open>int_type\<close> is the integer type of the configuration, of 32 bits unless
  64-bit types are enabled; the number of its bits is a parameter of the model, \<open>int_bits\<close>.
  The conversion drops the fraction (it rounds towards zero) and a number beyond the range
  of the integer type becomes the end of the range on its side.
  \<^verbatim>\<open>_poisson_quantile\<close> calls the search with the default \<^verbatim>\<open>max_iter=15\<close>.
\<close>

definition astype_int :: "nat \<Rightarrow> real \<Rightarrow> int" where
  "astype_int int_bits x =
     max (- (2 ^ (int_bits - 1)))
         (min (2 ^ (int_bits - 1) - 1) (if 0 \<le> x then \<lfloor>x\<rfloor> else \<lceil>x\<rceil>))"

definition poisson_quantile ::
  "(real \<Rightarrow> real \<Rightarrow> real) \<Rightarrow> nat \<Rightarrow> farray \<Rightarrow> farray \<Rightarrow> error + (nat list \<times> int list)" where
  "poisson_quantile igammac int_bits U rate0 =
     (case poisson_quantile_bisection igammac U rate0 15 of
        Inl e \<Rightarrow> Inl e
      | Inr (x, x_results) \<Rightarrow> Inr (fshape x, map (astype_int int_bits) (ravel x)))"

text \<open>
  \<^verbatim>\<open>Poisson._quantile\<close>: with a rate of more than one element, \<^verbatim>\<open>vmap\<close> pairs each element of
  \<open>U\<close> with its rate, and raises when the two differ in size; the results take the shape of
  the prior, which is the shape of the rate.
\<close>

definition Poisson_quantile ::
  "(real \<Rightarrow> real \<Rightarrow> real) \<Rightarrow> nat \<Rightarrow> poisson \<Rightarrow> farray \<Rightarrow> error + (nat list \<times> int list)" where
  "Poisson_quantile igammac int_bits p U =
     (if np_size (rate p) > 1
      then if np_size U = np_size (rate p)
           then (case sequence
                        (map2 (\<lambda>u r. poisson_quantile igammac int_bits (FArray [] [u]) (FArray [] [r]))
                              (ravel U) (ravel (rate p))) of
                   Inl e \<Rightarrow> Inl e
                 | Inr ks \<Rightarrow> Inr (fshape (rate p), concat (map snd ks)))
           else Inl (ValueError ''vmap got inconsistent sizes for array axes to be mapped'')
      else poisson_quantile igammac int_bits U (rate p))"

definition Poisson_forward ::
  "(real \<Rightarrow> real \<Rightarrow> real) \<Rightarrow> nat \<Rightarrow> poisson \<Rightarrow> farray \<Rightarrow> error + (nat list \<times> int list)" where
  "Poisson_forward igammac int_bits p U = Poisson_quantile igammac int_bits p U"

text \<open>
  The search as the specification words it, on the two ends of the bracket and the function
  alone: while the smooth cumulative probability at the upper end is below the target, the
  upper end is doubled; from then on the bracket is cut at its midpoint, and the half is kept
  on which the function goes from at most the target to more than the target.
\<close>

definition spec_bracket_step ::
  "(real \<Rightarrow> real \<Rightarrow> real) \<Rightarrow> real \<Rightarrow> real \<Rightarrow> real \<times> real \<Rightarrow> real \<times> real" where
  "spec_bracket_step igammac u r x =
     (case x of (a, b) \<Rightarrow>
        if smooth_cdf igammac b r < u then (a, 2 * b)
        else if u < smooth_cdf igammac ((a + b) / 2) r then (a, (a + b) / 2)
        else ((a + b) / 2, b))"

definition midpoint_of :: "real \<times> real \<Rightarrow> real" where
  "midpoint_of x = (case x of (a, b) \<Rightarrow> (a + b) / 2)"

text \<open>
  What holds of the state after \<open>k\<close> steps of the search, of which the first \<open>m\<close> doubled
  the upper end \<open>b\<close>: the upper end did not cover the target \<open>U\<close> before step \<open>m\<close>; if a step
  remained it covers the target from then on, and each later step halved the bracket. The
  lower end is where the search started or at a point where the function is at most the
  target; the upper end is where the doubling left it or at a point where the function is
  more than the target.
\<close>

definition search_invariant ::
  "(real \<Rightarrow> real \<Rightarrow> real) \<Rightarrow> real \<Rightarrow> real \<Rightarrow> nat \<Rightarrow> nat \<Rightarrow> bracket \<Rightarrow> bool" where
  "search_invariant ig U r k m s =
     (case s of (a, b, f_a, f_b) \<Rightarrow>
        m \<le> k
        \<and> (\<forall>j<m. smooth_cdf ig (r * 2 ^ j) r < U)
        \<and> (m < k \<longrightarrow> U \<le> smooth_cdf ig (r * 2 ^ m) r \<and> U \<le> f_b)
        \<and> (m = k \<longrightarrow> a = 0 \<and> b = r * 2 ^ m)
        \<and> f_b = smooth_cdf ig b r
        \<and> (a = 0 \<or> smooth_cdf ig a r \<le> U)
        \<and> (b = r * 2 ^ m \<or> U < smooth_cdf ig b r)
        \<and> 0 \<le> a \<and> a < b \<and> b \<le> r * 2 ^ m
        \<and> b - a = r * 2 ^ m / 2 ^ (k - m))"

text \<open>
  A step function in place of the incomplete gamma function, for a run of the search on
  numbers: the cumulative probability is 0 below 2 and 1 from 2 on.
\<close>

definition step_igammac :: "real \<Rightarrow> real \<Rightarrow> real" where
  "step_igammac s x = (if 3 \<le> s then 1 else 0)"

text \<open>An array of two targets, for a run of the search on numbers.\<close>

definition two_targets :: farray where
  "two_targets = FArray [2] [1 / 2, 3 / 4]"

section \<open>The serialisation bridge\<close>

text \<open>
  The values the bridge walks. A named record is a \<open>NamedTuple\<close>: the module and the name of its
  class, and its fields in order, as \<^verbatim>\<open>_asdict\<close> gives them. A numpy array is an \<open>Ndarray\<close>: its
  class, its element type, its shape, and its elements as the nest that \<^verbatim>\<open>tolist\<close> walks, one
  level for each axis. A list and a map carry their class as well: the tests
  \<^verbatim>\<open>isinstance(obj, ...)\<close> of the bridge hold of an instance of \<^verbatim>\<open>list\<close>, \<^verbatim>\<open>dict\<close> or
  \<^verbatim>\<open>numpy.ndarray\<close> itself (\<open>Builtin\<close>) and of an instance of a subclass, which \<open>Subclass\<close> gives
  by its name. A \<open>PyTuple\<close> is a tuple that is not a named record. A map has the list of its
  items in order; its keys are strings, tuples of keys, or other hashable objects. \<open>PyOther\<close>
  is every other object: a number, \<^verbatim>\<open>None\<close>, an array of another library. Array elements and
  the other objects are of one type \<open>'a\<close>, about which the bridge knows nothing.
\<close>

datatype key = KStr string | KTuple "key list" | KOther nat

datatype pyclass = Builtin | Subclass string

text \<open>
  The element type of an array. \<open>Named s\<close> is an element type that is not structured, by the
  name that \<^verbatim>\<open>str\<close> gives it, such as \<^verbatim>\<open>float64\<close>. \<open>Structured fs\<close> is a structured element type,
  by the names and the formats of its fields. An element of an array of a structured type is
  a record of field values (\<open>Fields\<close>), any other element is a scalar (\<open>Elem\<close>).
\<close>

datatype dtype = Named string | Structured "(string \<times> string) list"

datatype 'a tensor = Elem 'a | Fields "'a list" | Axis "'a tensor list"

datatype 'a pyval =
    NamedTuple string string "(string \<times> 'a pyval) list"
  | Ndarray pyclass dtype "nat list" "'a tensor"
  | PyList pyclass "'a pyval list"
  | PyTuple "'a pyval list"
  | PyDict pyclass "(key \<times> 'a pyval) list"
  | PyStr string
  | PyOther 'a

text \<open>
  The nest of an array of shape \<open>s\<close> has a level for each axis, with as many entries as the
  axis is long. \<open>scalars\<close> says that every element is a scalar.
\<close>

fun conforms :: "'a tensor \<Rightarrow> nat list \<Rightarrow> bool" where
  "conforms (Elem x) s = (s = [])"
| "conforms (Fields xs) s = (s = [])"
| "conforms (Axis ts) s = (case s of [] \<Rightarrow> False | d # ds \<Rightarrow> length ts = d \<and> list_all (\<lambda>t. conforms t ds) ts)"

fun scalars :: "'a tensor \<Rightarrow> bool" where
  "scalars (Elem x) = True"
| "scalars (Fields xs) = False"
| "scalars (Axis ts) = list_all scalars ts"

text \<open>
  \<^verbatim>\<open>str(obj.dtype)\<close>, from the library: the name of an element type that is not structured,
  and for a structured one the list of its fields, as in \<^verbatim>\<open>[('a', '<i4'), ('b', '<f8')]\<close>.
\<close>

definition quoted :: "string \<Rightarrow> string" where
  "quoted s = CHR 0x27 # s @ [CHR 0x27]"

fun join_comma :: "string list \<Rightarrow> string" where
  "join_comma [] = []"
| "join_comma [x] = x"
| "join_comma (x # y # ys) = x @ '', '' @ join_comma (y # ys)"

fun dtype_str :: "dtype \<Rightarrow> string" where
  "dtype_str (Named s) = s"
| "dtype_str (Structured fs) =
     ''['' @ join_comma (map (\<lambda>(nm, fmt). ''('' @ quoted nm @ '', '' @ quoted fmt @ '')'') fs) @ '']''"

text \<open>
  \<^verbatim>\<open>ndarray.tolist\<close>, from the library: nested lists, a scalar for a scalar element and a tuple
  of the field values for an element of a structured type.
\<close>

fun tolist :: "'a tensor \<Rightarrow> 'a pyval" where
  "tolist (Elem x) = PyOther x"
| "tolist (Fields xs) = PyTuple (map PyOther xs)"
| "tolist (Axis ts) = PyList Builtin (map tolist ts)"

text \<open>
  The element type that numpy reads from a string, as \<^verbatim>\<open>np.array(..., dtype=...)\<close> does. The
  names of the boolean, integer, floating and complex types of fixed size are read as these
  types. A string that starts with a square bracket and has no comma outside square
  brackets, as the string of a structured type is, names no element type: numpy raises
  \<^verbatim>\<open>TypeError\<close> (data type not understood). On any other string the model does not say what
  the library does.
\<close>

definition numeric_names :: "string list" where
  "numeric_names =
     [''bool'', ''int8'', ''int16'', ''int32'', ''int64'',
      ''uint8'', ''uint16'', ''uint32'', ''uint64'',
      ''float16'', ''float32'', ''float64'', ''complex64'', ''complex128'']"

fun comma_outside_brackets :: "nat \<Rightarrow> string \<Rightarrow> bool" where
  "comma_outside_brackets depth [] = False"
| "comma_outside_brackets depth (ch # rest) =
     (if ch = CHR '','' then depth = 0 \<or> comma_outside_brackets depth rest
      else if ch = CHR ''['' then comma_outside_brackets (Suc depth) rest
      else if ch = CHR '']'' then comma_outside_brackets (depth - 1) rest
      else comma_outside_brackets depth rest)"

definition np_dtype :: "string \<Rightarrow> error + dtype" where
  "np_dtype s =
     (if s \<in> set numeric_names then Inr (Named s)
      else if take 1 s = ''['' \<and> \<not> comma_outside_brackets 0 s
      then Inl (TypeError ''data type not understood'')
      else Inl NotModelled)"

text \<open>
  \<^verbatim>\<open>np.array(data, dtype=...)\<close>, from the library, for an element type given by a string, on
  nested lists or tuples whose leaves are other objects (numbers). The element type is read
  first. The shape is read along the first entries: an empty list ends it. A nest whose
  entries differ in shape is refused. Element values are kept. The result is an instance of
  \<^verbatim>\<open>numpy.ndarray\<close> itself. On any other argument the model does not say what the library
  does.
\<close>

fun infer_shape :: "'a tensor \<Rightarrow> nat list" where
  "infer_shape (Elem x) = []"
| "infer_shape (Fields xs) = []"
| "infer_shape (Axis []) = [0]"
| "infer_shape (Axis (t # ts)) = Suc (length ts) # infer_shape t"

fun rectangular :: "'a tensor \<Rightarrow> bool" where
  "rectangular (Elem x) = True"
| "rectangular (Fields xs) = True"
| "rectangular (Axis ts) =
     (list_all rectangular ts \<and> list_all (\<lambda>t. infer_shape t = infer_shape (hd ts)) ts)"

fun to_tensor :: "'a pyval \<Rightarrow> 'a tensor option"
  and to_tensors :: "'a pyval list \<Rightarrow> 'a tensor list option" where
  "to_tensor (PyOther x) = Some (Elem x)"
| "to_tensor (PyList cls xs) = map_option Axis (to_tensors xs)"
| "to_tensor (PyTuple xs) = map_option Axis (to_tensors xs)"
| "to_tensor (NamedTuple m c fs) = None"
| "to_tensor (Ndarray cls dt sh t) = None"
| "to_tensor (PyDict cls kvs) = None"
| "to_tensor (PyStr s) = None"
| "to_tensors [] = Some []"
| "to_tensors (x # xs) =
     (case to_tensor x of
        None \<Rightarrow> None
      | Some t \<Rightarrow> (case to_tensors xs of None \<Rightarrow> None | Some ts \<Rightarrow> Some (t # ts)))"

definition np_array :: "'a pyval \<Rightarrow> 'a pyval \<Rightarrow> error + 'a pyval" where
  "np_array data dtype =
     (case dtype of
        PyStr s \<Rightarrow>
          (case np_dtype s of
             Inl e \<Rightarrow> Inl e
           | Inr dt \<Rightarrow>
               (case to_tensor data of
                  None \<Rightarrow> Inl NotModelled
                | Some t \<Rightarrow>
                    if rectangular t then Inr (Ndarray Builtin dt (infer_shape t) t)
                    else Inl (ValueError ''inhomogeneous shape'')))
      | _ \<Rightarrow> Inl NotModelled)"

text \<open>
  \<^verbatim>\<open>serialise_namedtuple\<close>, with \<^verbatim>\<open>serialise_ndarray\<close> in its second case. The tests are in the
  order of the source: named record, array, list or tuple, map, anything else. The list and
  the map that a comprehension builds are instances of \<^verbatim>\<open>list\<close> and \<^verbatim>\<open>dict\<close> themselves.
\<close>

fun serialise_namedtuple :: "'a pyval \<Rightarrow> 'a pyval" where
  "serialise_namedtuple (NamedTuple m c fs) =
     PyDict Builtin
       [(KStr ''type'', PyStr ''__namedtuple__''),
        (KStr ''__class__'', PyStr (m @ ''.'' @ c)),
        (KStr ''__data__'',
         PyDict Builtin (map (\<lambda>(k, v). (KStr k, serialise_namedtuple v)) fs))]"
| "serialise_namedtuple (Ndarray cls dt sh t) =
     PyDict Builtin
       [(KStr ''type'', PyStr ''__ndarray__''),
        (KStr ''__dtype__'', PyStr (dtype_str dt)),
        (KStr ''__data__'', tolist t)]"
| "serialise_namedtuple (PyList cls xs) = PyList Builtin (map serialise_namedtuple xs)"
| "serialise_namedtuple (PyTuple xs) = PyList Builtin (map serialise_namedtuple xs)"
| "serialise_namedtuple (PyDict cls kvs) =
     PyDict Builtin (map (\<lambda>(k, v). (k, serialise_namedtuple v)) kvs)"
| "serialise_namedtuple (PyStr s) = PyStr s"
| "serialise_namedtuple (PyOther x) = PyOther x"

text \<open>
  What \<^verbatim>\<open>importlib.import_module\<close> and \<^verbatim>\<open>getattr\<close> find in the running process: for the name of
  a module, the names of its named-record classes, each with the names of its fields. The
  class found under a module and a name is the class that \<open>NamedTuple\<close> records by that
  module and that name. The classes have no default values.
\<close>

type_synonym registry = "string \<Rightarrow> (string \<Rightarrow> string list option) option"

text \<open>
  \<^verbatim>\<open>class_path.rsplit('.', 1)\<close>, unpacked into two names: the parts before and after the last
  dot; without a dot the unpacking fails.
\<close>

definition rsplit_dot :: "string \<Rightarrow> (string \<times> string) option" where
  "rsplit_dot s =
     (if CHR ''.'' \<in> set s
      then Some (rev (tl (dropWhile (\<lambda>ch. ch \<noteq> CHR ''.'') (rev s))),
                 rev (takeWhile (\<lambda>ch. ch \<noteq> CHR ''.'') (rev s)))
      else None)"

text \<open>
  The test \<^verbatim>\<open>'type' in obj and obj['type'] == tag\<close> on the items of a map. A value that is
  not a string is taken to differ from the tag.
\<close>

definition tagged :: "(key \<times> 'a pyval) list \<Rightarrow> string \<Rightarrow> bool" where
  "tagged kvs tag = (map_of kvs (KStr ''type'') = Some (PyStr tag))"

text \<open>\<^verbatim>\<open>deserialise_ndarray\<close>: \<^verbatim>\<open>obj['__data__']\<close> is read before \<^verbatim>\<open>obj['__dtype__']\<close>.\<close>

definition deserialise_ndarray :: "'a pyval \<Rightarrow> error + 'a pyval" where
  "deserialise_ndarray obj =
     (case obj of
        PyDict cls kvs \<Rightarrow>
          if tagged kvs ''__ndarray__''
          then (case map_of kvs (KStr ''__data__'') of
                  None \<Rightarrow> Inl (KeyError ''__data__'')
                | Some data \<Rightarrow>
                    (case map_of kvs (KStr ''__dtype__'') of
                       None \<Rightarrow> Inl (KeyError ''__dtype__'')
                     | Some dtype \<Rightarrow> np_array data dtype))
          else Inr obj
      | _ \<Rightarrow> Inr obj)"

text \<open>
  The call \<^verbatim>\<open>class_(**kwargs)\<close> of a named-record class: the keywords are strings, each names a
  field, and every field is given; the record has its fields in the order of the class.
\<close>

definition construct ::
  "string \<Rightarrow> string \<Rightarrow> string list \<Rightarrow> (key \<times> 'a pyval) list \<Rightarrow> error + 'a pyval" where
  "construct m c field_names kwargs =
     (if \<not> list_all (\<lambda>(k, v). case k of KStr f \<Rightarrow> True | _ \<Rightarrow> False) kwargs
      then Inl (TypeError ''keywords must be strings'')
      else if \<not> list_all (\<lambda>(k, v). k \<in> KStr ` set field_names) kwargs
      then Inl (TypeError ''got an unexpected keyword argument'')
      else case those (map (\<lambda>f. map_option (Pair f) (map_of kwargs (KStr f))) field_names) of
             None \<Rightarrow> Inl (TypeError ''missing required positional argument'')
           | Some fs \<Rightarrow> Inr (NamedTuple m c fs))"

text \<open>
  \<^verbatim>\<open>deserialise_namedtuple\<close>. In the first case the class is resolved before the data is
  read. A named record among the arguments is a tuple, and comes back as a list. The three
  other functions are the comprehensions over the elements of a list, the items of a map and
  the fields of a record.
\<close>

lemma map_of_size:
  "map_of kvs k = Some v \<Longrightarrow> size v < Suc (size_list (size_prod (\<lambda>x. 0) size) kvs)"
  by (induction kvs) (auto split: if_splits)

function (sequential) deserialise_namedtuple :: "registry \<Rightarrow> 'a pyval \<Rightarrow> error + 'a pyval"
  and deserialise_list :: "registry \<Rightarrow> 'a pyval list \<Rightarrow> error + 'a pyval list"
  and deserialise_items :: "registry \<Rightarrow> (key \<times> 'a pyval) list \<Rightarrow> error + (key \<times> 'a pyval) list"
  and deserialise_fields :: "registry \<Rightarrow> (string \<times> 'a pyval) list \<Rightarrow> error + 'a pyval list"
where
  "deserialise_namedtuple reg (PyDict cls kvs) =
     (if tagged kvs ''__namedtuple__''
      then (case map_of kvs (KStr ''__class__'') of
              None \<Rightarrow> Inl (KeyError ''__class__'')
            | Some (PyStr class_path) \<Rightarrow>
                (case rsplit_dot class_path of
                   None \<Rightarrow> Inl (ValueError ''not enough values to unpack'')
                 | Some (mod_name, cls_name) \<Rightarrow>
                     (case reg mod_name of
                        None \<Rightarrow>
                          if mod_name = [] then Inl (ValueError ''Empty module name'')
                          else Inl ModuleNotFoundError
                      | Some mod_attrs \<Rightarrow>
                          (case mod_attrs cls_name of
                             None \<Rightarrow> Inl AttributeError
                           | Some field_names \<Rightarrow>
                               (case map_of kvs (KStr ''__data__'') of
                                  None \<Rightarrow> Inl (KeyError ''__data__'')
                                | Some (PyDict data_cls items) \<Rightarrow>
                                    (case deserialise_items reg items of
                                       Inl e \<Rightarrow> Inl e
                                     | Inr kwargs \<Rightarrow> construct mod_name cls_name field_names kwargs)
                                | Some other \<Rightarrow> Inl AttributeError))))
            | Some other \<Rightarrow> Inl AttributeError)
      else if tagged kvs ''__ndarray__'' then deserialise_ndarray (PyDict cls kvs)
      else map_sum id (PyDict Builtin) (deserialise_items reg kvs))"
| "deserialise_namedtuple reg (PyList cls xs) = map_sum id (PyList Builtin) (deserialise_list reg xs)"
| "deserialise_namedtuple reg (PyTuple xs) = map_sum id (PyList Builtin) (deserialise_list reg xs)"
| "deserialise_namedtuple reg (NamedTuple m c fs) =
     map_sum id (PyList Builtin) (deserialise_fields reg fs)"
| "deserialise_namedtuple reg (Ndarray cls dt sh t) = Inr (Ndarray cls dt sh t)"
| "deserialise_namedtuple reg (PyStr s) = Inr (PyStr s)"
| "deserialise_namedtuple reg (PyOther x) = Inr (PyOther x)"
| "deserialise_list reg [] = Inr []"
| "deserialise_list reg (x # xs) =
     (case deserialise_namedtuple reg x of
        Inl e \<Rightarrow> Inl e
      | Inr y \<Rightarrow> (case deserialise_list reg xs of Inl e \<Rightarrow> Inl e | Inr ys \<Rightarrow> Inr (y # ys)))"
| "deserialise_items reg [] = Inr []"
| "deserialise_items reg ((k, v) # kvs) =
     (case deserialise_namedtuple reg v of
        Inl e \<Rightarrow> Inl e
      | Inr y \<Rightarrow> (case deserialise_items reg kvs of Inl e \<Rightarrow> Inl e | Inr ys \<Rightarrow> Inr ((k, y) # ys)))"
| "deserialise_fields reg [] = Inr []"
| "deserialise_fields reg ((f, v) # fs) =
     (case deserialise_namedtuple reg v of
        Inl e \<Rightarrow> Inl e
      | Inr y \<Rightarrow> (case deserialise_fields reg fs of Inl e \<Rightarrow> Inl e | Inr ys \<Rightarrow> Inr (y # ys)))"
  by pat_completeness auto
termination
  apply (relation "measure (\<lambda>x. case x of
            Inl (Inl (reg, v)) \<Rightarrow> size v
          | Inl (Inr (reg, xs)) \<Rightarrow> size_list size xs
          | Inr (Inl (reg, kvs)) \<Rightarrow> size_list (size_prod (\<lambda>x. 0) size) kvs
          | Inr (Inr (reg, fs)) \<Rightarrow> size_list (size_prod (\<lambda>x. 0) size) fs)")
  apply (auto dest: map_of_size)
  done

text \<open>
  \<open>detuple\<close> is a value with every tuple among its elements, values and fields replaced by
  the list of the same entries; \<open>no_tuple\<close> says that there is none. Keys are not looked
  into, and neither are the elements of an array. \<open>scalar_arrays\<close> says that the elements of
  every array in a value are scalars.
\<close>

fun detuple :: "'a pyval \<Rightarrow> 'a pyval" where
  "detuple (NamedTuple m c fs) = NamedTuple m c (map (\<lambda>(k, v). (k, detuple v)) fs)"
| "detuple (Ndarray cls dt sh t) = Ndarray cls dt sh t"
| "detuple (PyList cls xs) = PyList cls (map detuple xs)"
| "detuple (PyTuple xs) = PyList Builtin (map detuple xs)"
| "detuple (PyDict cls kvs) = PyDict cls (map (\<lambda>(k, v). (k, detuple v)) kvs)"
| "detuple (PyStr s) = PyStr s"
| "detuple (PyOther x) = PyOther x"

fun no_tuple :: "'a pyval \<Rightarrow> bool" where
  "no_tuple (NamedTuple m c fs) = list_all (\<lambda>(k, v). no_tuple v) fs"
| "no_tuple (Ndarray cls dt sh t) = True"
| "no_tuple (PyList cls xs) = list_all no_tuple xs"
| "no_tuple (PyTuple xs) = False"
| "no_tuple (PyDict cls kvs) = list_all (\<lambda>(k, v). no_tuple v) kvs"
| "no_tuple (PyStr s) = True"
| "no_tuple (PyOther x) = True"

fun scalar_arrays :: "'a pyval \<Rightarrow> bool" where
  "scalar_arrays (NamedTuple m c fs) = list_all (\<lambda>(k, v). scalar_arrays v) fs"
| "scalar_arrays (Ndarray cls dt sh t) = scalars t"
| "scalar_arrays (PyList cls xs) = list_all scalar_arrays xs"
| "scalar_arrays (PyTuple xs) = list_all scalar_arrays xs"
| "scalar_arrays (PyDict cls kvs) = list_all (\<lambda>(k, v). scalar_arrays v) kvs"
| "scalar_arrays (PyStr s) = True"
| "scalar_arrays (PyOther x) = True"

text \<open>
  The values the bridge can restore: the class of every named record is resolved from its
  module and its name (which has no dot) to a class of the same fields; every list, map and
  array is an instance of \<^verbatim>\<open>list\<close>, \<^verbatim>\<open>dict\<close> and \<^verbatim>\<open>numpy.ndarray\<close> itself; every array has a
  boolean, integer, floating or complex element type of fixed size, scalar elements, and no
  axis of length 0 before its last axis; and no map has the item \<^verbatim>\<open>'type'\<close> set to one of
  the two tags of the bridge.
\<close>

fun restorable :: "registry \<Rightarrow> 'a pyval \<Rightarrow> bool" where
  "restorable reg (NamedTuple m c fs) =
     (CHR ''.'' \<notin> set c
      \<and> (case reg m of None \<Rightarrow> False | Some attrs \<Rightarrow> attrs c = Some (map fst fs))
      \<and> distinct (map fst fs)
      \<and> list_all (\<lambda>(k, v). restorable reg v) fs)"
| "restorable reg (Ndarray cls dt sh t) =
     (cls = Builtin
      \<and> (case dt of Named s \<Rightarrow> s \<in> set numeric_names | Structured fs \<Rightarrow> False)
      \<and> scalars t \<and> conforms t sh \<and> 0 \<notin> set (butlast sh))"
| "restorable reg (PyList cls xs) = (cls = Builtin \<and> list_all (restorable reg) xs)"
| "restorable reg (PyTuple xs) = list_all (restorable reg) xs"
| "restorable reg (PyDict cls kvs) =
     (cls = Builtin
      \<and> \<not> tagged kvs ''__namedtuple__'' \<and> \<not> tagged kvs ''__ndarray__''
      \<and> list_all (\<lambda>(k, v). restorable reg v) kvs)"
| "restorable reg (PyStr s) = True"
| "restorable reg (PyOther x) = True"

text \<open>A registry with one class, and a value with a named record, an array, a map and a list.\<close>

definition example_registry :: registry where
  "example_registry =
     (\<lambda>m. if m = ''jaxns.internals.types''
          then Some (\<lambda>c. if c = ''Sample'' then Some [''point'', ''info''] else None)
          else None)"

definition example_value :: "int pyval" where
  "example_value =
     NamedTuple ''jaxns.internals.types'' ''Sample''
       [(''point'', Ndarray Builtin (Named ''float64'') [2] (Axis [Elem 1, Elem 2])),
        (''info'', PyDict Builtin [(KStr ''tags'', PyList Builtin [PyStr ''a'', PyOther 3])])]"

text \<open>
  Values that are not restored: a map with the tag of an array, an array with no rows, an
  array of a structured element type, and an instance of a subclass of \<^verbatim>\<open>dict\<close>.
\<close>

definition tagged_map :: "int pyval" where
  "tagged_map =
     PyDict Builtin
       [(KStr ''type'', PyStr ''__ndarray__''),
        (KStr ''__dtype__'', PyStr ''int64''),
        (KStr ''__data__'', PyList Builtin [PyOther 1, PyOther 2])]"

definition empty_rows :: "int pyval" where
  "empty_rows = Ndarray Builtin (Named ''float64'') [0, 3] (Axis [])"

definition record_array :: "int pyval" where
  "record_array =
     Ndarray Builtin (Structured [(''a'', ''<i4''), (''b'', ''<f8'')]) [2]
       (Axis [Fields [1, 2], Fields [3, 4]])"

definition ordered_map :: "int pyval" where
  "ordered_map = PyDict (Subclass ''collections.OrderedDict'') [(KStr ''a'', PyOther 1)]"

definition tuple_keyed_map :: "int pyval" where
  "tuple_keyed_map = PyDict Builtin [(KTuple [KOther 1, KOther 2], PyOther 3)]"

section \<open>Properties of ForcedIdentifiability\<close>

subsection \<open>The leading axis, one trailing index at a time\<close>

text \<open>
  Every operation of the two transforms is either elementwise or runs along the leading axis,
  so the value of a result at a trailing index \<open>idx\<close> depends on the arguments at \<open>idx\<close> only.
  The lemmas of this subsection read a list of rows through the column
  \<open>map (\<lambda>r. r idx)\<close> at one trailing index.
\<close>

lemma lead_broadcast_same_length:
  "length xs = length ys \<Longrightarrow> lead_broadcast f xs ys = Inr (map2 f xs ys)"
  by (simp add: lead_broadcast_def)

lemma length_cumsum_with [simp]: "length (cumsum_with add acc xs) = length xs"
  by (induction xs arbitrary: acc) simp_all

lemma cumsum_with_column:
  "map (\<lambda>r. r i) (cumsum_with (\<lambda>a b idx. a idx + b idx) acc rs)
     = cumsum_with (+) (acc i) (map (\<lambda>r. r i) rs)"
  by (induction rs arbitrary: acc) simp_all

lemma cumsum_column:
  "map (\<lambda>r. r i) (cumsum rs) = cumsum_with (+) 0 (map (\<lambda>r. r i) rs)"
  by (simp add: cumsum_def cumsum_with_column)

lemma diff_prepend0_column:
  "map (\<lambda>r. r i) (diff_prepend0 rs) = diff_with (-) 0 (map (\<lambda>r. r i) rs)"
proof -
  have "map (\<lambda>r. r i) (map2 (\<lambda>a b idx. a idx - b idx) xs ps)
          = map2 (-) (map (\<lambda>r. r i) xs) (map (\<lambda>r. r i) ps)" for xs ps :: "row list"
    by (induction xs ps rule: list_induct2') simp_all
  then show ?thesis
    by (simp add: diff_prepend0_def diff_with_def)
qed

lemma cumsum_with_snoc:
  "cumsum_with (+) a (xs @ [x]) = cumsum_with (+) a xs @ [a + sum_list xs + (x::real)]"
  by (induction xs arbitrary: a) (simp_all add: algebra_simps)

lemma rev_cumsum_rev: "rev (cumsum_with (+) 0 (rev xs)) = suffix_sums xs"
  by (induction xs) (simp_all add: cumsum_with_snoc)

lemma suffix_sums_bounds:
  "\<forall>x\<in>set xs. x \<le> 0 \<Longrightarrow> s \<in> set (suffix_sums xs) \<Longrightarrow> sum_list xs \<le> s \<and> s \<le> 0"
proof (induction xs)
  case Nil
  then show ?case by simp
next
  case (Cons x xs)
  have nonpos: "sum_list xs \<le> 0"
    using Cons.prems(1) by (simp add: sum_list_nonpos)
  show ?case
  proof (cases "s = x + sum_list xs")
    case True
    with Cons.prems nonpos show ?thesis by simp
  next
    case False
    with Cons.prems have "s \<in> set (suffix_sums xs)" by simp
    with Cons.IH Cons.prems(1) have "sum_list xs \<le> s \<and> s \<le> 0" by simp
    with Cons.prems(1) show ?thesis by simp
  qed
qed

lemma sorted_suffix_sums: "\<forall>x\<in>set xs. x \<le> 0 \<Longrightarrow> sorted (suffix_sums xs)"
proof (induction xs)
  case Nil
  then show ?case by simp
next
  case (Cons x xs)
  have "x + sum_list xs \<le> s" if "s \<in> set (suffix_sums xs)" for s
    using suffix_sums_bounds [of xs s] that Cons.prems by simp
  with Cons show ?case by simp
qed

lemma diff_cumsum_with:
  "map2 (-) (cumsum_with (+) a ys) (a # cumsum_with (+) a ys) = (ys :: real list)"
  by (induction ys arbitrary: a) simp_all

lemma diff_with_cumsum: "diff_with (-) 0 (cumsum_with (+) 0 ys) = (ys :: real list)"
  by (simp add: diff_with_def diff_cumsum_with)


lemma map2_column:
  "map (\<lambda>r. r i) (map2 (\<lambda>x kk idx. f (x idx) kk) xs ks) = map2 f (map (\<lambda>r. r i) xs) ks"
  by (induction xs ks rule: list_induct2') simp_all

lemma strip_with_ends: "strip_ends fi (with_ends fi core) = core"
  by (simp add: strip_ends_def with_ends_def)

lemma quantile_column:
  assumes len: "int (length U) = n_free fi"
  shows "\<exists>core. ForcedIdentifiability_quantile fi U = Inr (with_ends fi core)
           \<and> length core = length U
           \<and> map (\<lambda>r. r idx) core
               = map (\<lambda>s. elem (low fi) idx + (elem (high fi) idx - elem (low fi) idx) * exp s)
                   (suffix_sums (map2 (\<lambda>u kk. ln u / kk) (map (\<lambda>r. r idx) U)
                                      (map real_of_int [1..n_free fi])))"
proof -
  define ks where "ks = map real_of_int [1..n_free fi]"
  define log_x where "log_x = map (\<lambda>u idx. ln (u idx)) U"
  define inner where "inner = map2 (\<lambda>x kk idx. x idx / kk) log_x ks"
  define core where "core = map (\<lambda>s idx. elem (low fi) idx
                        + (elem (high fi) idx - elem (low fi) idx) * exp (s idx))
                      (rev (cumsum (rev inner)))"
  have lks: "length ks = length U"
    using len by (simp add: ks_def)
  have lb: "lead_broadcast (\<lambda>x kk idx. x idx / kk) log_x ks = Inr inner"
    using lks by (simp add: lead_broadcast_same_length inner_def log_x_def)
  have q: "ForcedIdentifiability_quantile fi U = Inr (with_ends fi core)"
    unfolding ForcedIdentifiability_quantile_def with_ends_def Let_def
    using lb by (simp add: ks_def log_x_def core_def)
  have lcore: "length core = length U"
    by (simp add: core_def cumsum_def inner_def log_x_def lks)
  have col_inner: "map (\<lambda>r. r idx) inner = map2 (\<lambda>u kk. ln u / kk) (map (\<lambda>r. r idx) U) ks"
  proof -
    have "map (\<lambda>r. r idx) inner = map2 (\<lambda>x kk. x / kk) (map (\<lambda>r. r idx) log_x) ks"
      unfolding inner_def by (rule map2_column)
    also have "map (\<lambda>r. r idx) log_x = map ln (map (\<lambda>r. r idx) U)"
      by (simp add: log_x_def)
    also have "map2 (\<lambda>x kk. x / kk) (map ln (map (\<lambda>r. r idx) U)) ks
                 = map2 (\<lambda>u kk. ln u / kk) (map (\<lambda>r. r idx) U) ks"
      by (simp add: zip_map1 split_def)
    finally show ?thesis .
  qed
  have col_sums: "map (\<lambda>r. r idx) (rev (cumsum (rev inner))) = suffix_sums (map (\<lambda>r. r idx) inner)"
    by (simp add: rev_map [symmetric] cumsum_column rev_cumsum_rev)
  have "map (\<lambda>r. r idx) core
          = map (\<lambda>s. elem (low fi) idx + (elem (high fi) idx - elem (low fi) idx) * exp s)
              (map (\<lambda>r. r idx) (rev (cumsum (rev inner))))"
    by (simp add: core_def comp_def)
  then have "map (\<lambda>r. r idx) core
               = map (\<lambda>s. elem (low fi) idx + (elem (high fi) idx - elem (low fi) idx) * exp s)
                   (suffix_sums (map2 (\<lambda>u kk. ln u / kk) (map (\<lambda>r. r idx) U) ks))"
    by (simp only: col_sums col_inner)
  with q lcore show ?thesis
    unfolding ks_def by blast
qed


lemma cdf_column:
  assumes len: "int (length (strip_ends fi X0)) = n_free fi"
  shows "\<exists>U'. ForcedIdentifiability_cdf fi X0 = Inr U'
           \<and> length U' = length (strip_ends fi X0)
           \<and> map (\<lambda>r. r idx) U'
               = map exp (map2 (\<lambda>x kk. x * kk)
                   (rev (diff_with (-) 0 (rev
                      (map (\<lambda>x. ln ((x - elem (low fi) idx) / (elem (high fi) idx - elem (low fi) idx)))
                           (map (\<lambda>r. r idx) (strip_ends fi X0))))))
                   (map real_of_int [1..n_free fi]))"
proof -
  define X where "X = strip_ends fi X0"
  define ks where "ks = map real_of_int [1..n_free fi]"
  define log_output where "log_output = map (\<lambda>x idx. ln ((x idx - elem (low fi) idx)
                                          / (elem (high fi) idx - elem (low fi) idx))) X"
  define inner where "inner = rev (diff_prepend0 (rev log_output))"
  define log_x where "log_x = map2 (\<lambda>x kk idx. x idx * kk) inner ks"
  define U' where "U' = map (\<lambda>x idx. exp (x idx)) log_x"
  have lks: "length ks = length X"
    using len by (simp add: ks_def X_def)
  have linner: "length inner = length X"
    by (simp add: inner_def diff_prepend0_def diff_with_def log_output_def)
  have lb: "lead_broadcast (\<lambda>x kk idx. x idx * kk) inner ks = Inr log_x"
    using lks linner by (simp add: lead_broadcast_same_length log_x_def)
  have c: "ForcedIdentifiability_cdf fi X0 = Inr U'"
    unfolding ForcedIdentifiability_cdf_def Let_def
    using lb by (simp add: U'_def ks_def inner_def log_output_def X_def strip_ends_def Let_def)
  have lU: "length U' = length X"
    by (simp add: U'_def log_x_def lks linner)
  have col_lo: "map (\<lambda>r. r idx) log_output
                  = map (\<lambda>x. ln ((x - elem (low fi) idx) / (elem (high fi) idx - elem (low fi) idx)))
                      (map (\<lambda>r. r idx) X)"
    by (simp add: log_output_def comp_def)
  have col_inner: "map (\<lambda>r. r idx) inner
                     = rev (diff_with (-) 0 (rev (map (\<lambda>r. r idx) log_output)))"
    by (simp add: inner_def rev_map [symmetric] diff_prepend0_column)
  have col_lx: "map (\<lambda>r. r idx) log_x = map2 (\<lambda>x kk. x * kk) (map (\<lambda>r. r idx) inner) ks"
    unfolding log_x_def by (rule map2_column)
  have "map (\<lambda>r. r idx) U' = map exp (map (\<lambda>r. r idx) log_x)"
    by (simp add: U'_def comp_def)
  then have "map (\<lambda>r. r idx) U'
      = map exp (map2 (\<lambda>x kk. x * kk)
                   (rev (diff_with (-) 0 (rev
                      (map (\<lambda>x. ln ((x - elem (low fi) idx) / (elem (high fi) idx - elem (low fi) idx)))
                           (map (\<lambda>r. r idx) X)))))
                   ks)"
    by (simp only: col_lx col_inner col_lo)
  with c lU show ?thesis
    unfolding ks_def X_def by blast
qed

lemma sorted_map_mono_on:
  "sorted xs \<Longrightarrow> (\<And>x y. x \<in> set xs \<Longrightarrow> y \<in> set xs \<Longrightarrow> x \<le> y \<Longrightarrow> g x \<le> g y)
     \<Longrightarrow> sorted (map g xs)"
  by (induction xs) auto

lemma sorted_with_ends:
  fixes l h :: real
  assumes "sorted cs" and "\<forall>c\<in>set cs. l \<le> c \<and> c \<le> h" and "l \<le> h"
  shows "sorted ((if fl then [l] else []) @ cs @ (if fr then [h] else []))"
  using assms by (auto simp: sorted_append)

lemma with_ends_column:
  "map (\<lambda>r. r idx) (with_ends fi core)
     = (if fix_left fi then [elem (low fi) idx] else []) @ map (\<lambda>r. r idx) core
        @ (if fix_right fi then [elem (high fi) idx] else [])"
  by (simp add: with_ends_def)

lemma inner_nonpos:
  assumes "\<forall>u\<in>set us. 0 < u \<and> u < (1::real)"
  shows "\<forall>y\<in>set (map2 (\<lambda>u kk. ln u / kk) us (map real_of_int [1..m])). y \<le> 0"
proof
  fix y assume "y \<in> set (map2 (\<lambda>u kk. ln u / kk) us (map real_of_int [1..m]))"
  then obtain u kk where y: "y = ln u / kk" and mem: "(u, kk) \<in> set (zip us (map real_of_int [1..m]))"
    by auto
  from mem have "u \<in> set us" and "kk \<in> set (map real_of_int [1..m])"
    by (auto dest: set_zip_leftD set_zip_rightD)
  with assms have "ln u < 0" and "1 \<le> kk" by auto
  then show "y \<le> 0" by (simp add: y divide_nonpos_pos)
qed


lemma undo_division:
  "length us = length ks \<Longrightarrow> \<forall>kk\<in>set ks. kk \<noteq> (0::real) \<Longrightarrow>
     map2 (\<lambda>x kk. x * kk) (map2 (\<lambda>u kk. ln u / kk) us ks) ks = map ln us"
  by (induction us ks rule: list_induct2) simp_all

lemma undo_cumsum: "rev (diff_with (-) 0 (rev (suffix_sums ys))) = ys"
proof -
  have "rev (suffix_sums ys) = cumsum_with (+) 0 (rev ys)"
    by (simp add: rev_cumsum_rev [symmetric])
  then show ?thesis
    by (simp add: diff_with_cumsum)
qed

lemma undo_affine:
  fixes l h :: real
  assumes "l \<noteq> h"
  shows "map (\<lambda>x. ln ((x - l) / (h - l))) (map (\<lambda>s. l + (h - l) * exp s) ss) = ss"
  using assms by (induction ss) simp_all

subsection \<open>Construction\<close>

lemma broadcast_dims_same: "broadcast_dims xs xs = Some xs"
  by (induction xs) simp_all

lemma broadcast_shapes_same: "broadcast_shapes s s = Some s"
  by (simp add: broadcast_shapes_def broadcast_dims_same)

lemma broadcast_arrays_cases:
  "broadcast_arrays a b =
     (case broadcast_shapes (shape a) (shape b) of
        None \<Rightarrow> Inl (ValueError ''Incompatible shapes for broadcasting'')
      | Some s \<Rightarrow> if shape a = shape b then Inr (a, b) else Inr (broadcast_to a s, broadcast_to b s))"
  by (simp add: broadcast_arrays_def broadcast_shapes_same split: option.splits)

lemma scenario_init:
  "ForcedIdentifiability_init 3 (scalar 0) (scalar 1) True True = Inr scenario"
  by (simp add: ForcedIdentifiability_init_def broadcast_arrays_def scalar_def scenario_def)

lemma init_n_free:
  assumes "ForcedIdentifiability_init n0 lo hi fl fr = Inr fi"
  shows "n_free fi = n0 - (if fl then 1 else 0) - (if fr then 1 else 0)"
    and "0 \<le> n_free fi"
  using assms
  by (auto simp: ForcedIdentifiability_init_def n_free_def Let_def
        split: if_splits sum.splits)

text \<open>
  Claim C5, as the code has it. Construction raises the error of the check on \<open>n\<close> exactly
  when \<open>n\<close> is smaller than the number of fixed ends. When \<open>n\<close> is large enough, the constructor
  goes on to broadcast \<open>low\<close> and \<open>high\<close> against each other: it succeeds, with the parameters
  as given and \<open>low\<close> and \<open>high\<close> of the common shape, when their shapes are compatible, and
  raises the error of the broadcast otherwise.
\<close>

theorem ForcedIdentifiability_init_validation:
  "(ForcedIdentifiability_init n0 lo hi fl fr = Inl (ValueError ''n too small for fix_left and fix_right'')
      \<longleftrightarrow> n0 < (if fl then 1 else 0) + (if fr then 1 else 0))
   \<and> (\<not> n0 < (if fl then 1 else 0) + (if fr then 1 else 0) \<longrightarrow>
        (case broadcast_shapes (shape lo) (shape hi) of
           None \<Rightarrow> ForcedIdentifiability_init n0 lo hi fl fr
                     = Inl (ValueError ''Incompatible shapes for broadcasting'')
         | Some s \<Rightarrow> \<exists>fi. ForcedIdentifiability_init n0 lo hi fl fr = Inr fi
                     \<and> n fi = n0 \<and> fix_left fi = fl \<and> fix_right fi = fr
                     \<and> shape (low fi) = s \<and> shape (high fi) = s))"
  by (auto simp: ForcedIdentifiability_init_def broadcast_arrays_cases broadcast_to_def
        broadcast_shapes_same split: option.splits)

text \<open>The prior of the end-to-end scenario is constructed: \<open>3\<close> is not smaller than \<open>2\<close>.\<close>

theorem ForcedIdentifiability_init_validation_witness:
  "\<not> (3::int) < (if True then 1 else 0) + (if True then 1 else 0)
   \<and> broadcast_shapes (shape (scalar 0)) (shape (scalar 1)) = Some []
   \<and> (\<exists>fi. ForcedIdentifiability_init 3 (scalar 0) (scalar 1) True True = Inr fi
          \<and> n fi = 3 \<and> fix_left fi = True \<and> fix_right fi = True
          \<and> shape (low fi) = [] \<and> shape (high fi) = [])"
  using ForcedIdentifiability_init_validation [of 3 "scalar 0" "scalar 1" True True]
  by (simp add: scalar_def broadcast_shapes_def)

text \<open>
  Claim C5 as stated fails where \<open>n\<close> is large enough and \<open>low\<close> and \<open>high\<close> cannot be broadcast
  together: with \<open>n = 2\<close>, no fixed end, \<open>low\<close> of shape \<^verbatim>\<open>(2,)\<close> and \<open>high\<close> of shape \<^verbatim>\<open>(3,)\<close>,
  construction raises although \<open>n\<close> is not too small.
\<close>

theorem ForcedIdentifiability_init_counterexample:
  "\<not> (2::int) < (if False then 1 else 0) + (if False then 1 else 0)
   \<and> ForcedIdentifiability_init 2 \<lparr>shape = [2], elem = (\<lambda>idx. 0)\<rparr> \<lparr>shape = [3], elem = (\<lambda>idx. 1)\<rparr>
        False False
      = Inl (ValueError ''Incompatible shapes for broadcasting'')"
  by (simp add: ForcedIdentifiability_init_def broadcast_arrays_def broadcast_shapes_def)

subsection \<open>The log-density\<close>

text \<open>
  Claim C3. For a prior that was constructed, with \<open>low < high\<close> at the trailing index, the
  log-density is \<open>- ln (n_free!) - n_free * ln (high - low)\<close>, where \<open>n_free\<close> is \<open>n\<close> less the
  number of fixed ends; it does not depend on the argument \<open>X\<close>.
\<close>

theorem ForcedIdentifiability_log_prob_closed_form:
  assumes init: "ForcedIdentifiability_init n0 lo hi fl fr = Inr fi"
    and lh: "elem (low fi) idx < elem (high fi) idx"
    and nf: "nf = n0 - (if fl then 1 else 0) - (if fr then 1 else 0)"
  shows "0 \<le> nf
         \<and> ForcedIdentifiability_log_prob fi X idx
             = - ln (fact (nat nf)) - real_of_int nf * ln (elem (high fi) idx - elem (low fi) idx)
         \<and> ForcedIdentifiability_log_prob fi X = ForcedIdentifiability_log_prob fi Y"
  using init_n_free [OF init] nf
  by (simp add: ForcedIdentifiability_log_prob_def gammaln_def)

text \<open>
  The end-to-end scenario: \<open>n = 3\<close>, \<open>low = 0\<close>, \<open>high = 1\<close> and both ends fixed leave one free
  value, and the log-density is \<open>- ln (1!) - 1 * ln (1 - 0) = 0\<close>.
\<close>

theorem ForcedIdentifiability_log_prob_closed_form_witness:
  "ForcedIdentifiability_init 3 (scalar 0) (scalar 1) True True = Inr scenario
   \<and> elem (low scenario) [] < elem (high scenario) []
   \<and> ForcedIdentifiability_log_prob scenario [\<lambda>idx. 0, \<lambda>idx. 1 / 2, \<lambda>idx. 1] [] = 0"
  using ForcedIdentifiability_log_prob_closed_form
          [of 3 "scalar 0" "scalar 1" True True scenario "[]" 1
              "[\<lambda>idx. 0, \<lambda>idx. 1 / 2, \<lambda>idx. 1]"] scenario_init
  by (simp add: scenario_def scalar_def)

subsection \<open>The forward transform is ordered\<close>

text \<open>
  Claim C4. Let \<open>U\<close> have the base shape (\<open>n_free\<close> rows), with entries in \<open>(0, 1)\<close> at the
  trailing index \<open>idx\<close>, and let \<open>low \<le> high\<close> there. Then the forward transform returns
  \<open>n\<close> rows whose values at \<open>idx\<close> are non-decreasing along the leading axis; the first row is
  \<open>low\<close> itself when \<open>fix_left\<close> is set, and the last row is \<open>high\<close> itself when \<open>fix_right\<close> is
  set.
\<close>

theorem ForcedIdentifiability_forward_ordered:
  assumes len: "int (length U) = n_free fi"
    and U01: "\<forall>u\<in>set U. 0 < u idx \<and> u idx < 1"
    and lh: "elem (low fi) idx \<le> elem (high fi) idx"
  shows "\<exists>out. ForcedIdentifiability_forward fi U = Inr out
           \<and> int (length out) = n fi
           \<and> sorted (map (\<lambda>r. r idx) out)
           \<and> (fix_left fi \<longrightarrow> hd out = elem (low fi))
           \<and> (fix_right fi \<longrightarrow> last out = elem (high fi))"
proof -
  define l where "l = elem (low fi) idx"
  define h where "h = elem (high fi) idx"
  define ys where "ys = map2 (\<lambda>u kk. ln u / kk) (map (\<lambda>r. r idx) U) (map real_of_int [1..n_free fi])"
  obtain core where q: "ForcedIdentifiability_quantile fi U = Inr (with_ends fi core)"
    and lc: "length core = length U"
    and col: "map (\<lambda>r. r idx) core = map (\<lambda>s. l + (h - l) * exp s) (suffix_sums ys)"
    using quantile_column [OF len, of idx] unfolding l_def h_def ys_def by blast
  have nonpos: "\<forall>y\<in>set ys. y \<le> 0"
    unfolding ys_def using U01 by (intro inner_nonpos) auto
  have ss_sorted: "sorted (suffix_sums ys)"
    using nonpos by (rule sorted_suffix_sums)
  have ss_nonpos: "s \<le> 0" if "s \<in> set (suffix_sums ys)" for s
    using suffix_sums_bounds [OF nonpos that] by simp
  have hl: "0 \<le> h - l"
    using lh by (simp add: l_def h_def)
  have core_sorted: "sorted (map (\<lambda>r. r idx) core)"
    unfolding col using ss_sorted
    by (rule sorted_map_mono_on) (use hl in \<open>simp add: mult_left_mono\<close>)
  have core_bounds: "\<forall>c\<in>set (map (\<lambda>r. r idx) core). l \<le> c \<and> c \<le> h"
  proof
    fix c assume "c \<in> set (map (\<lambda>r. r idx) core)"
    then obtain s where s: "s \<in> set (suffix_sums ys)" and c: "c = l + (h - l) * exp s"
      unfolding col by auto
    have e: "0 \<le> exp s" "exp s \<le> 1"
      using ss_nonpos [OF s] by simp_all
    have "0 \<le> (h - l) * exp s"
      using hl e(1) by (rule mult_nonneg_nonneg)
    moreover have "(h - l) * exp s \<le> (h - l) * 1"
      using e(2) hl by (rule mult_left_mono)
    ultimately have "0 \<le> (h - l) * exp s" and "(h - l) * exp s \<le> h - l"
      by simp_all
    then show "l \<le> c \<and> c \<le> h"
      by (simp add: c)
  qed
  have "sorted (map (\<lambda>r. r idx) (with_ends fi core))"
    unfolding with_ends_column l_def [symmetric] h_def [symmetric]
    using core_sorted core_bounds lh
    by (intro sorted_with_ends) (simp_all add: l_def h_def)
  moreover have "int (length (with_ends fi core)) = n fi"
    using lc len by (simp add: with_ends_def n_free_def Let_def)
  moreover have "fix_left fi \<longrightarrow> hd (with_ends fi core) = elem (low fi)"
    by (simp add: with_ends_def Let_def)
  moreover have "fix_right fi \<longrightarrow> last (with_ends fi core) = elem (high fi)"
    by (simp add: with_ends_def Let_def)
  ultimately show ?thesis
    using q by (simp add: ForcedIdentifiability_forward_def)
qed

theorem ForcedIdentifiability_forward_ordered_witness:
  "int (length [\<lambda>idx. 1 / 2 :: real]) = n_free scenario
   \<and> (\<exists>out. ForcedIdentifiability_forward scenario [\<lambda>idx. 1 / 2] = Inr out
          \<and> length out = 3 \<and> sorted (map (\<lambda>r. r []) out)
          \<and> hd out = (\<lambda>idx. 0) \<and> last out = (\<lambda>idx. 1))"
  using ForcedIdentifiability_forward_ordered [of "[\<lambda>idx. 1 / 2]" scenario "[]"]
  by (simp add: scenario_def scalar_def n_free_def)

subsection \<open>The round trip\<close>

lemma forward_inverse_column:
  assumes len: "int (length U) = n_free fi"
    and Upos: "\<forall>u\<in>set U. 0 < u idx"
    and lh: "elem (low fi) idx \<noteq> elem (high fi) idx"
  shows "\<exists>X U'. ForcedIdentifiability_forward fi U = Inr X
           \<and> ForcedIdentifiability_inverse fi X = Inr U'
           \<and> length U' = length U
           \<and> map (\<lambda>r. r idx) U' = map (\<lambda>r. r idx) U"
proof -
  define l where "l = elem (low fi) idx"
  define h where "h = elem (high fi) idx"
  define ks where "ks = map real_of_int [1..n_free fi]"
  define us where "us = map (\<lambda>r. r idx) U"
  define ys where "ys = map2 (\<lambda>u kk. ln u / kk) us ks"
  obtain core where q: "ForcedIdentifiability_quantile fi U = Inr (with_ends fi core)"
    and lc: "length core = length U"
    and col: "map (\<lambda>r. r idx) core = map (\<lambda>s. l + (h - l) * exp s) (suffix_sums ys)"
    using quantile_column [OF len, of idx] unfolding l_def h_def ys_def us_def ks_def by blast
  have len': "int (length (strip_ends fi (with_ends fi core))) = n_free fi"
    using lc len by (simp add: strip_with_ends)
  obtain U' where c: "ForcedIdentifiability_cdf fi (with_ends fi core) = Inr U'"
    and lU: "length U' = length core"
    and colU: "map (\<lambda>r. r idx) U'
                 = map exp (map2 (\<lambda>x kk. x * kk)
                     (rev (diff_with (-) 0 (rev
                        (map (\<lambda>x. ln ((x - l) / (h - l))) (map (\<lambda>r. r idx) core)))))
                     ks)"
    using cdf_column [OF len', of idx] unfolding strip_with_ends l_def h_def ks_def by blast
  have lks: "length us = length ks"
    using len by (simp add: us_def ks_def)
  have affine: "map (\<lambda>x. ln ((x - l) / (h - l))) (map (\<lambda>s. l + (h - l) * exp s) (suffix_sums ys))
                  = suffix_sums ys"
    using lh by (intro undo_affine) (simp add: l_def h_def)
  have "map (\<lambda>r. r idx) U' = map exp (map2 (\<lambda>x kk. x * kk) ys ks)"
    unfolding colU col affine undo_cumsum ..
  also have "\<dots> = map exp (map ln us)"
    unfolding ys_def using lks by (simp add: undo_division ks_def)
  also have "\<dots> = us"
    using Upos by (simp add: us_def map_idI)
  finally have "map (\<lambda>r. r idx) U' = map (\<lambda>r. r idx) U"
    by (simp add: us_def)
  with q c lU lc show ?thesis
    by (simp add: ForcedIdentifiability_forward_def ForcedIdentifiability_inverse_def)
qed


lemma Bernoulli_forward_threshold:
  "(\<forall>idx. (u idx < probs b idx) = (u' idx < probs b idx))
     \<Longrightarrow> Bernoulli_forward b u = Bernoulli_forward b u'"
  by (simp add: Bernoulli_forward_def Bernoulli_quantile_def)

text \<open>
  Claim C1 as stated fails for Bernoulli. With probability \<open>1/2\<close>, the draws \<open>1/10\<close> and \<open>3/10\<close>
  have the same sample, 1. So whatever the library's \<^verbatim>\<open>cdf\<close> returns, the inverse transform
  gives one result for both, and no result is within \<open>1/10\<close> of both draws. With the
  cumulative distribution function of the Bernoulli distribution for \<^verbatim>\<open>cdf\<close>, the round trip of
  \<open>3/10\<close> is 1.
\<close>

theorem Bernoulli_roundtrip_counterexample:
  "Bernoulli_forward fair_coin (\<lambda>idx. 1 / 10) = Bernoulli_forward fair_coin (\<lambda>idx. 3 / 10)
   \<and> (\<forall>cdf r1 r2.
         \<not> (Bernoulli_inverse cdf fair_coin (Bernoulli_forward fair_coin (\<lambda>idx. 1 / 10)) = Inr r1
            \<and> Bernoulli_inverse cdf fair_coin (Bernoulli_forward fair_coin (\<lambda>idx. 3 / 10)) = Inr r2
            \<and> \<bar>r1 [] - 1 / 10\<bar> < 1 / 10
            \<and> \<bar>r2 [] - 3 / 10\<bar> < 1 / 10))
   \<and> (\<exists>r. Bernoulli_inverse bernoulli_cdf fair_coin (Bernoulli_forward fair_coin (\<lambda>idx. 3 / 10)) = Inr r
          \<and> r [] = 1)"
proof -
  have same: "Bernoulli_forward fair_coin (\<lambda>idx. 1 / 10) = Bernoulli_forward fair_coin (\<lambda>idx. 3 / 10)"
    by (rule Bernoulli_forward_threshold) (simp add: fair_coin_def)
  have "\<not> (Bernoulli_inverse cdf fair_coin (Bernoulli_forward fair_coin (\<lambda>idx. 1 / 10)) = Inr r1
            \<and> Bernoulli_inverse cdf fair_coin (Bernoulli_forward fair_coin (\<lambda>idx. 3 / 10)) = Inr r2
            \<and> \<bar>r1 [] - 1 / 10\<bar> < 1 / 10
            \<and> \<bar>r2 [] - 3 / 10\<bar> < 1 / 10)" for cdf r1 r2
  proof
    assume a: "Bernoulli_inverse cdf fair_coin (Bernoulli_forward fair_coin (\<lambda>idx. 1 / 10)) = Inr r1
            \<and> Bernoulli_inverse cdf fair_coin (Bernoulli_forward fair_coin (\<lambda>idx. 3 / 10)) = Inr r2
            \<and> \<bar>r1 [] - 1 / 10\<bar> < 1 / 10
            \<and> \<bar>r2 [] - 3 / 10\<bar> < 1 / 10"
    then have "Inr r1 = (Inr r2 :: error + row)"
      unfolding same by (elim conjE) (erule subst, assumption)
    then have "r1 = r2"
      by simp
    with a have "\<bar>r2 [] - 1 / 10\<bar> < 1 / 10" and "\<bar>r2 [] - 3 / 10\<bar> < 1 / 10"
      by simp_all
    then show False by linarith
  qed
  moreover have "\<exists>r. Bernoulli_inverse bernoulli_cdf fair_coin
                        (Bernoulli_forward fair_coin (\<lambda>idx. 3 / 10)) = Inr r \<and> r [] = 1"
    by (simp add: Bernoulli_inverse_def bernoulli_cdf_def Bernoulli_forward_def
          Bernoulli_quantile_def fair_coin_def)
  ultimately show ?thesis
    using same by blast
qed

text \<open>
  Claim C1, as the code has it. For ForcedIdentifiability the round trip is the identity in
  exact arithmetic: when \<open>U\<close> has the base shape, with entries in \<open>(0, 1)\<close> at the trailing index
  \<open>idx\<close>, and \<open>low < high\<close> there, the inverse transform of the forward transform of \<open>U\<close>
  has the rows of \<open>U\<close> at \<open>idx\<close>. For Bernoulli the forward transform is the threshold test
  \<open>u < p\<close>, and the inverse transform is the library's \<^verbatim>\<open>cdf\<close> of the sample: the round trip
  of \<open>u\<close> depends on \<open>u\<close> only through the outcome of the test, so it is the same for any two
  arguments with the same outcomes.
\<close>

theorem roundtrip_law_amended:
  assumes len: "int (length U) = n_free fi"
    and U01: "\<forall>u\<in>set U. 0 < u idx \<and> u idx < 1"
    and lh: "elem (low fi) idx < elem (high fi) idx"
    and same: "\<forall>idx. (u idx < probs b idx) = (u' idx < probs b idx)"
  shows "(\<exists>X U'. ForcedIdentifiability_forward fi U = Inr X
            \<and> ForcedIdentifiability_inverse fi X = Inr U'
            \<and> length U' = length U
            \<and> map (\<lambda>r. r idx) U' = map (\<lambda>r. r idx) U)
         \<and> Bernoulli_inverse cdf b (Bernoulli_forward b u)
             = Bernoulli_inverse cdf b (Bernoulli_forward b u')"
proof -
  have "\<forall>u\<in>set U. 0 < u idx"
    using U01 by simp
  moreover have "elem (low fi) idx \<noteq> elem (high fi) idx"
    using lh by simp
  ultimately show ?thesis
    using forward_inverse_column [OF len, of idx] Bernoulli_forward_threshold [OF same]
    by simp
qed

theorem roundtrip_law_amended_witness:
  "int (length [\<lambda>idx. 1 / 2 :: real]) = n_free scenario
   \<and> (\<exists>X U'. ForcedIdentifiability_forward scenario [\<lambda>idx. 1 / 2] = Inr X
          \<and> ForcedIdentifiability_inverse scenario X = Inr U'
          \<and> length U' = 1 \<and> map (\<lambda>r. r []) U' = [1 / 2])
   \<and> Bernoulli_inverse bernoulli_cdf fair_coin (Bernoulli_forward fair_coin (\<lambda>idx. 1 / 10))
        = Bernoulli_inverse bernoulli_cdf fair_coin (Bernoulli_forward fair_coin (\<lambda>idx. 3 / 10))"
  using roundtrip_law_amended [of "[\<lambda>idx. 1 / 2]" scenario "[]" "\<lambda>idx. 1 / 10" fair_coin
          "\<lambda>idx. 3 / 10" bernoulli_cdf]
  by (simp add: scenario_def scalar_def n_free_def fair_coin_def)

section \<open>Properties of Categorical\<close>

text \<open>
  Claim C6. Under the parametrisation \<^verbatim>\<open>gumbel_max\<close> (and under every parametrisation other
  than \<^verbatim>\<open>cdf\<close>) the inverse transform raises \<^verbatim>\<open>NotImplementedError\<close> for every argument; under
  \<^verbatim>\<open>cdf\<close> it is the cumulative distribution function of the library's categorical
  distribution at its argument, and raises nothing of its own.
\<close>

theorem Categorical_inverse_dispatch:
  "(parametrisation c = ''gumbel_max'' \<longrightarrow> Categorical_inverse cdf c X = Inl NotImplementedError)
   \<and> (parametrisation c \<noteq> ''cdf'' \<longrightarrow> Categorical_inverse cdf c X = Inl NotImplementedError)
   \<and> (parametrisation c = ''cdf'' \<longrightarrow> Categorical_inverse cdf c X = cdf c X)"
  by (simp add: Categorical_inverse_def)

theorem Categorical_inverse_dispatch_witness:
  "Categorical_inverse categorical_cdf \<lparr>logits = [[0, 0]], parametrisation = ''gumbel_max''\<rparr> [1]
     = Inl NotImplementedError
   \<and> Categorical_inverse categorical_cdf \<lparr>logits = [[0, 0]], parametrisation = ''cdf''\<rparr> [1]
     = Inr [1]"
  using
    Categorical_inverse_dispatch
      [of "\<lparr>logits = [[0, 0]], parametrisation = ''gumbel_max''\<rparr>" categorical_cdf "[1]"]
    Categorical_inverse_dispatch
      [of "\<lparr>logits = [[0, 0]], parametrisation = ''cdf''\<rparr>" categorical_cdf "[1]"]
  by (simp add: categorical_cdf_def categorical_cdf1_def softmax_def)

subsection \<open>The search in the cumulative logits\<close>

lemma takeWhile_length_mono:
  "(\<And>x. x \<in> set xs \<Longrightarrow> P x \<Longrightarrow> Q x) \<Longrightarrow> length (takeWhile P xs) \<le> length (takeWhile Q xs)"
  by (induction xs) auto

lemma searchsorted_left_mono: "v \<le> w \<Longrightarrow> searchsorted_left a v \<le> searchsorted_left a w"
  unfolding searchsorted_left_def by (rule takeWhile_length_mono) simp

lemma searchsorted_left_in_range:
  assumes "x \<in> set a" and "v \<le> x"
  shows "searchsorted_left a v < length a"
proof -
  have "takeWhile (\<lambda>x. x < v) a \<noteq> a"
    using assms by (auto simp: takeWhile_eq_all_conv not_less intro!: bexI [of _ x])
  moreover have "length (takeWhile (\<lambda>x. x < v) a) \<le> length a"
    by (rule length_takeWhile_le)
  ultimately show ?thesis
    unfolding searchsorted_left_def
    by (metis le_neq_implies_less takeWhile_eq_take take_all_iff order_refl)
qed

lemma searchsorted_left_reaches:
  "searchsorted_left a v < length a \<Longrightarrow> v \<le> a ! searchsorted_left a v"
  unfolding searchsorted_left_def
  using nth_length_takeWhile [of "\<lambda>x. x < v" a] by simp

lemma searchsorted_left_before:
  assumes "j < searchsorted_left a v"
  shows "a ! j < v"
proof -
  have "takeWhile (\<lambda>x. x < v) a ! j \<in> set (takeWhile (\<lambda>x. x < v) a)"
    using assms by (simp add: searchsorted_left_def)
  then have "takeWhile (\<lambda>x. x < v) a ! j < v"
    by (auto dest: set_takeWhileD)
  then show ?thesis
    using assms by (simp add: searchsorted_left_def takeWhile_nth)
qed

lemma cumulative_logsumexp_from_sorted:
  "0 \<le> acc \<Longrightarrow> sorted (cumulative_logsumexp_from acc ls)
     \<and> (\<forall>x\<in>set (cumulative_logsumexp_from acc ls). 0 < acc \<longrightarrow> ln acc < x)"
proof (induction ls arbitrary: acc)
  case Nil
  then show ?case by simp
next
  case (Cons l ls)
  have pos: "0 < acc + exp l"
    using Cons.prems by (simp add: add_nonneg_pos)
  from Cons.IH [of "acc + exp l"] pos
  have s: "sorted (cumulative_logsumexp_from (acc + exp l) ls)"
    and b: "\<forall>x\<in>set (cumulative_logsumexp_from (acc + exp l) ls). ln (acc + exp l) < x"
    by simp_all
  have "ln acc < ln (acc + exp l)" if "0 < acc"
    using that pos by (subst ln_less_cancel_iff) simp_all
  with s b show ?case
    by (fastforce simp: less_imp_le)
qed

lemma length_cumulative_logsumexp [simp]: "length (cumulative_logsumexp ls) = length ls"
proof -
  have "length (cumulative_logsumexp_from acc ls) = length ls" for acc
    by (induction ls arbitrary: acc) simp_all
  then show ?thesis by (simp add: cumulative_logsumexp_def)
qed

lemma normalised_cum_logits_sorted: "sorted (normalised_cum_logits ls)"
proof -
  have "sorted (cumulative_logsumexp ls)"
    using cumulative_logsumexp_from_sorted [of 0 ls] by (simp add: cumulative_logsumexp_def)
  then show ?thesis
    unfolding normalised_cum_logits_def Let_def
    by (simp add: sorted_map sorted_wrt_iff_nth_less)
qed

lemma normalised_cum_logits_last:
  assumes "ls \<noteq> []"
  shows "(0::real) \<in> set (normalised_cum_logits ls)" and "length (normalised_cum_logits ls) = length ls"
proof -
  have ne: "cumulative_logsumexp ls \<noteq> []"
    using assms by (metis length_cumulative_logsumexp length_0_conv)
  then have "last (cumulative_logsumexp ls) \<in> set (cumulative_logsumexp ls)"
    by simp
  then show "(0::real) \<in> set (normalised_cum_logits ls)"
    unfolding normalised_cum_logits_def Let_def by force
  show "length (normalised_cum_logits ls) = length ls"
    by (simp add: normalised_cum_logits_def Let_def)
qed


lemma cumulative_logsumexp_from_nth:
  "i < length ls \<Longrightarrow>
     cumulative_logsumexp_from acc ls ! i = ln (acc + sum_list (map exp (take (Suc i) ls)))"
proof (induction ls arbitrary: acc i)
  case Nil
  then show ?case by simp
next
  case (Cons l ls)
  show ?case
  proof (cases i)
    case 0
    then show ?thesis by simp
  next
    case (Suc j)
    with Cons.prems have "j < length ls" by simp
    from Cons.IH [OF this, of "acc + exp l"] Suc show ?thesis
      by (simp add: add.assoc)
  qed
qed

lemma sum_exp_pos: "xs \<noteq> [] \<Longrightarrow> 0 < sum_list (map exp (xs :: real list))"
proof -
  have "0 \<le> sum_list (map exp ys)" for ys :: "real list"
    by (rule sum_list_nonneg) auto
  then show "xs \<noteq> [] \<Longrightarrow> 0 < sum_list (map exp xs)"
    by (cases xs) (simp_all add: add_pos_nonneg)
qed

lemma normalised_cum_logits_is_log_cdf:
  assumes i: "i < length ls"
  shows "exp (normalised_cum_logits ls ! i) = categorical_cdf1 ls (int i)"
proof -
  define S where "S = sum_list (map exp ls)"
  define Si where "Si = sum_list (map exp (take (Suc i) ls))"
  have ne: "ls \<noteq> []" using i by auto
  have Spos: "0 < S"
    unfolding S_def using ne by (rule sum_exp_pos)
  have Sipos: "0 < Si"
    unfolding Si_def using i by (intro sum_exp_pos) auto
  have nth_i: "cumulative_logsumexp ls ! i = ln Si"
    using cumulative_logsumexp_from_nth [OF i, of 0] by (simp add: cumulative_logsumexp_def Si_def)
  have "cumulative_logsumexp ls \<noteq> []"
    using ne by (metis length_cumulative_logsumexp length_0_conv)
  then have "last (cumulative_logsumexp ls) = cumulative_logsumexp ls ! (length ls - 1)"
    by (simp add: last_conv_nth)
  also have "\<dots> = ln (sum_list (map exp (take (Suc (length ls - 1)) ls)))"
    using cumulative_logsumexp_from_nth [of "length ls - 1" ls 0] ne
    by (simp add: cumulative_logsumexp_def)
  also have "\<dots> = ln S"
    using ne by (simp add: S_def)
  finally have last_eq: "last (cumulative_logsumexp ls) = ln S" .
  have "normalised_cum_logits ls ! i = ln Si - ln S"
    using i by (simp add: normalised_cum_logits_def Let_def nth_i last_eq)
  then have lhs: "exp (normalised_cum_logits ls ! i) = Si / S"
    using Spos Sipos by (simp add: exp_diff)
  have tk: "nat (min (int i) (int (length ls) - 1)) + 1 = Suc i"
    using i by simp
  have "sum_list (map (\<lambda>l. exp l / S) xs) = sum_list (map exp xs) / S" for xs
    by (induction xs) (simp_all add: add_divide_distrib)
  then have "categorical_cdf1 ls (int i) = Si / S"
    unfolding categorical_cdf1_def softmax_def S_def [symmetric] tk
    by (simp add: take_map Si_def)
  with lhs show ?thesis by simp
qed

text \<open>
  Claim C7. Under the parametrisation \<^verbatim>\<open>cdf\<close>, for two arguments of the batch shape and a batch
  element \<open>b\<close> with at least one category where \<open>0 < u1 \<le> u2 < 1\<close>: the forward transform
  returns for both, and the category of \<open>u1\<close> is at most the category of \<open>u2\<close>. The
  normalised cumulative logits \<open>a\<close> of the batch element are sorted and are the logarithms of
  the cumulative probabilities, and the category of \<open>u1\<close> is the left-most index of \<open>a\<close> whose
  entry is at least \<open>ln u1\<close>.
\<close>

theorem Categorical_forward_cdf_monotone:
  assumes par: "parametrisation c = ''cdf''"
    and len1: "length U1 = length (logits c)"
    and len2: "length U2 = length (logits c)"
    and b: "b < length (logits c)"
    and ne: "logits c ! b \<noteq> []"
    and u1: "0 < U1 ! b"
    and le: "U1 ! b \<le> U2 ! b"
    and u2: "U2 ! b < 1"
  shows "\<exists>k1 k2 a. Categorical_forward c U1 = Inr (Some k1)
           \<and> Categorical_forward c U2 = Inr (Some k2)
           \<and> length k1 = length U1 \<and> length k2 = length U2
           \<and> k1 ! b \<le> k2 ! b
           \<and> a = normalised_cum_logits (logits c ! b)
           \<and> sorted a
           \<and> k1 ! b < length a
           \<and> ln (U1 ! b) \<le> a ! (k1 ! b)
           \<and> (\<forall>j<k1 ! b. a ! j < ln (U1 ! b))
           \<and> (\<forall>i<length a. exp (a ! i) = categorical_cdf1 (logits c ! b) (int i))"
proof -
  define a where "a = normalised_cum_logits (logits c ! b)"
  define k where "k U = map2 (\<lambda>a v. searchsorted_left a v)
                          (map normalised_cum_logits (logits c)) (map ln U)" for U
  have fwd: "Categorical_forward c U = Inr (Some (k U))" if "length U = length (logits c)" for U
    using par that
    by (simp add: Categorical_forward_def Categorical_quantile_cdf_def k_def)
  have kb: "k U ! b = searchsorted_left a (ln (U ! b))" if "length U = length (logits c)" for U
    using b that by (simp add: k_def a_def)
  have lk: "length (k U) = length U" if "length U = length (logits c)" for U
    using that by (simp add: k_def)
  have la: "length a = length (logits c ! b)" and zero: "0 \<in> set a"
    using normalised_cum_logits_last [OF ne] by (simp_all add: a_def)
  have "ln (U1 ! b) \<le> ln (U2 ! b)"
    using u1 le by simp
  then have mono: "k U1 ! b \<le> k U2 ! b"
    by (simp add: kb len1 len2 searchsorted_left_mono)
  have "ln (U1 ! b) \<le> 0"
    using u1 le u2 by simp
  with zero have inr: "searchsorted_left a (ln (U1 ! b)) < length a"
    by (rule searchsorted_left_in_range)
  have reach: "ln (U1 ! b) \<le> a ! searchsorted_left a (ln (U1 ! b))"
    using inr by (rule searchsorted_left_reaches)
  have before: "\<forall>j<searchsorted_left a (ln (U1 ! b)). a ! j < ln (U1 ! b)"
    by (simp add: searchsorted_left_before)
  have cdf: "\<forall>i<length a. exp (a ! i) = categorical_cdf1 (logits c ! b) (int i)"
    by (simp add: a_def la [unfolded a_def] normalised_cum_logits_is_log_cdf)
  have srt: "sorted a"
    unfolding a_def by (rule normalised_cum_logits_sorted)
  show ?thesis
  proof (intro exI conjI)
    show "Categorical_forward c U1 = Inr (Some (k U1))" by (rule fwd [OF len1])
    show "Categorical_forward c U2 = Inr (Some (k U2))" by (rule fwd [OF len2])
    show "length (k U1) = length U1" by (rule lk [OF len1])
    show "length (k U2) = length U2" by (rule lk [OF len2])
    show "k U1 ! b \<le> k U2 ! b" by (rule mono)
    show "a = normalised_cum_logits (logits c ! b)" by (rule a_def)
    show "sorted a" by (rule srt)
    show "k U1 ! b < length a" unfolding kb [OF len1] by (rule inr)
    show "ln (U1 ! b) \<le> a ! (k U1 ! b)" unfolding kb [OF len1] by (rule reach)
    show "\<forall>j<k U1 ! b. a ! j < ln (U1 ! b)" unfolding kb [OF len1] by (rule before)
    show "\<forall>i<length a. exp (a ! i) = categorical_cdf1 (logits c ! b) (int i)" by (rule cdf)
  qed
qed

theorem Categorical_forward_cdf_monotone_witness:
  "\<exists>k1 k2 a. Categorical_forward \<lparr>logits = [[0, 0]], parametrisation = ''cdf''\<rparr> [1 / 4] = Inr (Some k1)
           \<and> Categorical_forward \<lparr>logits = [[0, 0]], parametrisation = ''cdf''\<rparr> [3 / 4] = Inr (Some k2)
           \<and> length k1 = 1 \<and> length k2 = 1
           \<and> k1 ! 0 \<le> k2 ! 0
           \<and> a = normalised_cum_logits [0, 0]
           \<and> sorted a
           \<and> k1 ! 0 < length a
           \<and> ln (1 / 4) \<le> a ! (k1 ! 0)"
  using Categorical_forward_cdf_monotone [of "\<lparr>logits = [[0, 0]], parametrisation = ''cdf''\<rparr>"
          "[1 / 4]" "[3 / 4]" 0]
  by simp blast

section \<open>Properties of Beta\<close>

text \<open>
  Claim C2 as stated fails for array-valued parameters: the test is \<^verbatim>\<open>np.all\<close> over the whole
  array, not a test of each element. With \<^verbatim>\<open>concentration0 = np.array([1., 2.])\<close> and
  \<^verbatim>\<open>concentration1 = np.array([3., 4.])\<close> the first element has \<^verbatim>\<open>concentration0\<close> exactly 1,
  and the prior uses the general Beta distribution for every element.
\<close>

theorem Beta_elementwise_counterexample:
  "[1, 2 :: real] ! 0 = 1
   \<and> family (Beta_init (NumpyArray [1, 2]) (NumpyArray [3, 4])) = GeneralBeta"
  by (simp add: Beta_init_def)

text \<open>
  Claim C2, as the code has it. The prior uses the Kumaraswamy distribution exactly when one
  of the two concentration parameters is 1 as a whole: a Python number equal to 1, or a numpy
  array all of whose elements are 1. Then every element of the forward transform is the
  closed-form Kumaraswamy quantile; in every other case every element is the general Beta
  quantile.
\<close>

theorem Beta_family_selection:
  "family (Beta_init c0 c1) = (if whole_one c0 \<or> whole_one c1 then Kumaraswamy else GeneralBeta)
   \<and> concentration0 (Beta_init c0 c1) = c0
   \<and> concentration1 (Beta_init c0 c1) = c1
   \<and> (param_values (length U) c1 = Some a \<longrightarrow> param_values (length U) c0 = Some b \<longrightarrow>
        Beta_forward beta_quantile (Beta_init c0 c1) U =
          Inr (elementwise3 (if whole_one c0 \<or> whole_one c1 then kumaraswamy_quantile
                             else beta_quantile) a b U))"
proof -
  have fam: "family (Beta_init c0 c1)
               = (if whole_one c0 \<or> whole_one c1 then Kumaraswamy else GeneralBeta)"
    by (cases c0; cases c1) (simp_all add: Beta_init_def)
  have c: "concentration0 (Beta_init c0 c1) = c0" "concentration1 (Beta_init c0 c1) = c1"
    by (simp_all add: Beta_init_def)
  have size: "broadcast_size m (param_size p) = Some m" if "param_values m p = Some vs"
    for m p and vs
    using that by (cases p) (auto simp: broadcast_size_def split: if_splits)
  show ?thesis
    by (simp add: fam c Beta_forward_def Beta_quantile_def size)
qed

theorem Beta_family_selection_witness:
  "family (Beta_init (PyNumber 1) (PyNumber 2)) = Kumaraswamy
   \<and> Beta_forward (\<lambda>a b u. u) (Beta_init (PyNumber 1) (PyNumber 2)) [3 / 4] = Inr [sqrt (3 / 4)]
   \<and> family (Beta_init (NumpyArray [1, 2]) (NumpyArray [3, 4])) = GeneralBeta
   \<and> Beta_forward (\<lambda>a b u. u) (Beta_init (NumpyArray [1, 2]) (NumpyArray [3, 4])) [1 / 4, 3 / 4]
        = Inr [1 / 4, 3 / 4]"
  using Beta_family_selection [of "PyNumber 1" "PyNumber 2" "[3 / 4]" "[2]" "[1]" "\<lambda>a b u. u"]
    Beta_family_selection [of "NumpyArray [1, 2]" "NumpyArray [3, 4]" "[1 / 4, 3 / 4]" "[3, 4]" "[1, 2]"
       "\<lambda>a b u. u"]
  by (simp add: elementwise3_def kumaraswamy_quantile_def powr_half_sqrt)

section \<open>Properties of Poisson\<close>

lemma fst_scan_snoc:
  "fst (scan f s (xs @ [x])) = fst (f (fst (scan f s xs)) x)"
  by (induction xs arbitrary: s) (simp_all add: split_beta)

lemma snd_scan_snoc:
  "snd (scan f s (xs @ [x])) = snd (scan f s xs) @ [snd (f (fst (scan f s xs)) x)]"
  by (induction xs arbitrary: s) (simp_all add: split_beta)

lemma length_scan: "length (snd (scan f s xs)) = length xs"
  by (induction xs arbitrary: s) (simp_all add: split_beta)

lemma scan_upt_nth:
  "k < steps \<Longrightarrow> snd (scan f s [0..<steps]) ! k = snd (f (fst (scan f s [0..<k])) k)"
proof (induction steps)
  case 0
  then show ?case by simp
next
  case (Suc steps)
  show ?case
  proof (cases "k = steps")
    case True
    then show ?thesis
      by (simp add: snd_scan_snoc nth_append length_scan)
  next
    case False
    with Suc.prems have "k < steps" by simp
    with Suc.IH show ?thesis
      by (simp add: snd_scan_snoc nth_append length_scan)
  qed
qed

lemma sequence_Inr: "sequence (map (\<lambda>x. Inr (f x)) xs) = Inr (map f xs)"
  by (induction xs) simp_all

lemma step_double:
  "\<not> U \<le> f_b \<Longrightarrow>
     fst (fixed_point_update ig U r (a, b, f_a, f_b) i) = (a, b * 2, f_a, smooth_cdf ig (b * 2) r)"
  by (simp add: fixed_point_update_def Let_def)

lemma step_bisect:
  "U \<le> f_b \<Longrightarrow>
     fst (fixed_point_update ig U r (a, b, f_a, f_b) i) =
       (if U < smooth_cdf ig ((a + b) / 2) r
        then (a, (a + b) / 2, f_a, smooth_cdf ig ((a + b) / 2) r)
        else ((a + b) / 2, b, smooth_cdf ig ((a + b) / 2) r, f_b))"
  by (simp add: fixed_point_update_def Let_def)

lemma step_output:
  "snd (fixed_point_update ig U r s i) =
     (case fst (fixed_point_update ig U r s i) of (a, b, f_a, f_b) \<Rightarrow> (a + b) / 2)"
  by (cases s) (simp add: fixed_point_update_def Let_def)

lemma search_invariant_init:
  "0 < r \<Longrightarrow> search_invariant ig U r 0 0 (0, r, 0, smooth_cdf ig r r)"
  by (simp add: search_invariant_def)

lemma search_invariant_step:
  assumes inv: "search_invariant ig U r k m s" and r: "0 < r"
  shows "\<exists>m'. search_invariant ig U r (Suc k) m' (fst (fixed_point_update ig U r s i))"
proof -
  obtain a b f_a f_b where s: "s = (a, b, f_a, f_b)"
    by (cases s) auto
  from inv have all: "m \<le> k
        \<and> (\<forall>j<m. smooth_cdf ig (r * 2 ^ j) r < U)
        \<and> (m < k \<longrightarrow> U \<le> smooth_cdf ig (r * 2 ^ m) r \<and> U \<le> f_b)
        \<and> (m = k \<longrightarrow> a = 0 \<and> b = r * 2 ^ m)
        \<and> f_b = smooth_cdf ig b r
        \<and> (a = 0 \<or> smooth_cdf ig a r \<le> U)
        \<and> (b = r * 2 ^ m \<or> U < smooth_cdf ig b r)
        \<and> 0 \<le> a \<and> a < b \<and> b \<le> r * 2 ^ m
        \<and> b - a = r * 2 ^ m / 2 ^ (k - m)"
    unfolding search_invariant_def s split_conv by blast
  then have mk: "m \<le> k"
    and below: "\<forall>j<m. smooth_cdf ig (r * 2 ^ j) r < U"
    and covered: "m < k \<longrightarrow> U \<le> smooth_cdf ig (r * 2 ^ m) r \<and> U \<le> f_b"
    and expanding: "m = k \<longrightarrow> a = 0 \<and> b = r * 2 ^ m"
    and fb: "f_b = smooth_cdf ig b r"
    and lower: "a = 0 \<or> smooth_cdf ig a r \<le> U"
    and upper: "b = r * 2 ^ m \<or> U < smooth_cdf ig b r"
    and bounds: "0 \<le> a" "a < b" "b \<le> r * 2 ^ m"
    and width: "b - a = r * 2 ^ m / 2 ^ (k - m)"
    by blast+
  show ?thesis
  proof (cases "U \<le> f_b")
    case False
    then have "m = k"
      using covered mk by auto
    with expanding have a0: "a = 0" and bk: "b = r * 2 ^ k"
      by simp_all
    have "smooth_cdf ig (r * 2 ^ k) r < U"
      using False fb bk by simp
    with below \<open>m = k\<close> have below': "\<forall>j<Suc k. smooth_cdf ig (r * 2 ^ j) r < U"
      by (auto simp: less_Suc_eq)
    have "search_invariant ig U r (Suc k) (Suc k) (a, b * 2, f_a, smooth_cdf ig (b * 2) r)"
      using below' a0 bk r by (simp add: search_invariant_def)
    then show ?thesis
      using False by (auto simp: s step_double)
  next
    case True
    have cov: "U \<le> smooth_cdf ig (r * 2 ^ m) r"
    proof (cases "m = k")
      case True
      with expanding fb \<open>U \<le> f_b\<close> show ?thesis by simp
    next
      case False
      with covered mk show ?thesis by simp
    qed
    define c where "c = (a + b) / 2"
    have c: "a < c" "c < b"
      using bounds by (simp_all add: c_def)
    have half: "r * 2 ^ m / 2 ^ (Suc k - m) = (b - a) / 2"
      using mk by (simp add: width Suc_diff_le)
    have widths: "c - a = (b - a) / 2" "b - c = (b - a) / 2"
      by (simp_all add: c_def field_simps)
    have wl: "c - a = r * 2 ^ m / 2 ^ (Suc k - m)" and wr: "b - c = r * 2 ^ m / 2 ^ (Suc k - m)"
      by (simp_all only: widths half)
    have cle: "c \<le> r * 2 ^ m" and cge: "0 \<le> c"
      using c bounds by linarith+
    have mk': "m \<le> Suc k" "m \<noteq> Suc k"
      using mk by simp_all
    have left: "search_invariant ig U r (Suc k) m (a, c, f_a, smooth_cdf ig c r)"
      if "U < smooth_cdf ig c r"
      unfolding search_invariant_def split_conv
      using that mk' below cov bounds c wl cle lower
      by (intro conjI impI) simp_all
    have right: "search_invariant ig U r (Suc k) m (c, b, smooth_cdf ig c r, f_b)"
      if "\<not> U < smooth_cdf ig c r"
      unfolding search_invariant_def split_conv
      using that mk' below cov bounds c wr cge True fb upper
      by (intro conjI impI) simp_all
    show ?thesis
      using True left right by (auto simp: s step_bisect c_def)
  qed
qed

lemma search_invariant_scan:
  assumes r: "0 < r"
  shows "\<exists>m. search_invariant ig U r k m
               (fst (scan (fixed_point_update ig U r) (0, r, 0, smooth_cdf ig r r) [0..<k]))"
proof (induction k)
  case 0
  show ?case
    using search_invariant_init [OF r] by auto
next
  case (Suc k)
  then obtain m where
    "search_invariant ig U r k m
       (fst (scan (fixed_point_update ig U r) (0, r, 0, smooth_cdf ig r r) [0..<k]))"
    by blast
  from search_invariant_step [OF this r, of k] show ?case
    by (simp add: fst_scan_snoc)
qed

lemma scan_follows_spec:
  assumes r: "0 < r"
  shows "(case fst (scan (fixed_point_update ig U r) (0, r, 0, smooth_cdf ig r r) [0..<k]) of
            (a, b, f_a, f_b) \<Rightarrow> (a, b))
         = (spec_bracket_step ig U r ^^ k) (0, r)"
proof (induction k)
  case 0
  show ?case by simp
next
  case (Suc k)
  define s where "s = fst (scan (fixed_point_update ig U r) (0, r, 0, smooth_cdf ig r r) [0..<k])"
  obtain a b f_a f_b where s_eq: "s = (a, b, f_a, f_b)"
    by (cases s) auto
  obtain m where "search_invariant ig U r k m s"
    using search_invariant_scan [OF r, of ig U k] unfolding s_def by blast
  then have fb: "f_b = smooth_cdf ig b r"
    unfolding search_invariant_def s_eq split_conv by blast
  have prev: "(spec_bracket_step ig U r ^^ k) (0, r) = (a, b)"
    using Suc.IH unfolding s_def [symmetric] s_eq by simp
  have "(case fst (fixed_point_update ig U r (a, b, f_a, f_b) k) of (a, b, f_a, f_b) \<Rightarrow> (a, b))
          = spec_bracket_step ig U r (a, b)"
  proof (cases "U \<le> f_b")
    case True
    then show ?thesis
      using fb by (simp add: step_bisect spec_bracket_step_def)
  next
    case False
    then show ?thesis
      using fb by (simp add: step_double spec_bracket_step_def)
  qed
  then show ?case
    by (simp add: fst_scan_snoc s_def [symmetric] s_eq prev)
qed

lemma scan_outputs_follow_spec:
  assumes r: "0 < r" and k: "k < steps"
  shows "snd (scan (fixed_point_update ig U r) (0, r, 0, smooth_cdf ig r r) [0..<steps]) ! k
         = midpoint_of ((spec_bracket_step ig U r ^^ Suc k) (0, r))"
proof -
  define s where
    "s = fst (scan (fixed_point_update ig U r) (0, r, 0, smooth_cdf ig r r) [0..<Suc k])"
  obtain a b f_a f_b where s_eq: "s = (a, b, f_a, f_b)"
    by (cases s) auto
  have "(spec_bracket_step ig U r ^^ Suc k) (0, r) = (a, b)"
    using scan_follows_spec [OF r, of ig U "Suc k"] unfolding s_def [symmetric] s_eq by simp
  moreover have "snd (scan (fixed_point_update ig U r) (0, r, 0, smooth_cdf ig r r) [0..<steps]) ! k
                   = (a + b) / 2"
    using s_eq unfolding s_def
    by (simp add: scan_upt_nth [OF k] step_output fst_scan_snoc)
  ultimately show ?thesis
    by (simp add: midpoint_of_def)
qed

lemma astype_int_positive:
  "0 \<le> x \<Longrightarrow> astype_int int_bits x = min \<lfloor>x\<rfloor> (2 ^ (int_bits - 1) - 1)"
proof -
  assume x: "0 \<le> x"
  define top :: int where "top = 2 ^ (int_bits - 1)"
  have top: "1 \<le> top"
    by (simp add: top_def)
  have fl: "0 \<le> \<lfloor>x\<rfloor>"
    using x by simp
  have "max (- top) (min (top - 1) \<lfloor>x\<rfloor>) = min \<lfloor>x\<rfloor> (top - 1)"
    using top fl by linarith
  then show ?thesis
    using x unfolding astype_int_def top_def by simp
qed

lemma bisection_scalar_run:
  "bisection_scalar ig (FArray [] [u]) (FArray [] [r]) steps
     = Inr (midpoint_of (case fst (scan (fixed_point_update ig u r) (0, r, 0, smooth_cdf ig r r) [0..<steps]) of
                           (a, b, f_a, f_b) \<Rightarrow> (a, b)),
            snd (scan (fixed_point_update ig u r) (0, r, 0, smooth_cdf ig r r) [0..<steps]))"
  by (simp add: bisection_scalar_def Let_def midpoint_of_def split_beta)

lemma Poisson_forward_scalar:
  assumes "fshape U = [] \<and> length (ravel U) = 1 \<or> 1 < length (ravel U)"
  shows "Poisson_forward ig int_bits \<lparr>rate = FArray [] [r]\<rparr> U
     = Inr (fshape U,
            map (\<lambda>u. astype_int int_bits
                       (midpoint_of (case fst (scan (fixed_point_update ig u (max r (1 / 100000)))
                                             (0, max r (1 / 100000), 0,
                                              smooth_cdf ig (max r (1 / 100000)) (max r (1 / 100000)))
                                             [0..<15]) of
                                      (a, b, f_a, f_b) \<Rightarrow> (a, b))))
                (ravel U))"
proof (cases "1 < length (ravel U)")
  case True
  then show ?thesis
    by (simp add: Poisson_forward_def Poisson_quantile_def poisson_quantile_def
          poisson_quantile_bisection_def np_size_def Let_def bisection_scalar_run
          sequence_Inr comp_def)
next
  case False
  with assms have sh: "fshape U = []" and len: "length (ravel U) = 1"
    by auto
  from len obtain u where u: "ravel U = [u]"
    by (cases "ravel U") auto
  have U: "U = FArray [] [u]"
    using sh u by (cases U) simp
  show ?thesis
    unfolding U
    by (simp add: Poisson_forward_def Poisson_quantile_def poisson_quantile_def
          poisson_quantile_bisection_def np_size_def Let_def bisection_scalar_run)
qed

text \<open>
  Claim C8. For a scalar rate \<open>r\<close> (raised to \<open>1e-5\<close> if smaller) and a target \<open>U\<close> that is a
  scalar or has more than one element, the forward transform runs the update exactly 15
  times for each element \<open>u\<close> of \<open>U\<close>, whatever \<open>u\<close> and the rate are. The two ends of the
  bracket after the 15 updates, and the midpoint that each update gives out, are those of
  15 steps of the search as the specification words it. There is a number \<open>m \<le> 15\<close> of
  leading steps that double the upper end of the bracket, taken while the smooth cumulative
  probability (the regularised incomplete gamma function) at the upper end is below \<open>u\<close>;
  every later step halves the bracket and keeps the half on which the function crosses
  \<open>u\<close>: the function is at most \<open>u\<close> at a lower end that has moved, more than \<open>u\<close> at an upper
  end that has moved, and at least \<open>u\<close> at the upper end once the doubling has stopped. The
  result has the shape of \<open>U\<close>, and its element for \<open>u\<close> is the midpoint of the last bracket
  without its fraction, or the largest number of the integer type if that is smaller.
\<close>

theorem Poisson_forward_fixed_bisection:
  assumes r1: "r1 = max r (1 / 100000)"
    and U: "fshape U = [] \<and> length (ravel U) = 1 \<or> 1 < length (ravel U)"
    and i: "i < length (ravel U)"
    and u: "u = ravel U ! i"
  shows "\<exists>m a b f_a f_b x_results ks.
           scan (fixed_point_update igammac u r1) (0, r1, 0, smooth_cdf igammac r1 r1) [0..<15]
             = ((a, b, f_a, f_b), x_results)
           \<and> length x_results = 15
           \<and> (a, b) = (spec_bracket_step igammac u r1 ^^ 15) (0, r1)
           \<and> (\<forall>k<15. x_results ! k
                       = midpoint_of ((spec_bracket_step igammac u r1 ^^ Suc k) (0, r1)))
           \<and> m \<le> 15
           \<and> (\<forall>j<m. smooth_cdf igammac (r1 * 2 ^ j) r1 < u)
           \<and> (m < 15 \<longrightarrow> u \<le> smooth_cdf igammac (r1 * 2 ^ m) r1 \<and> u \<le> smooth_cdf igammac b r1)
           \<and> (a = 0 \<or> smooth_cdf igammac a r1 \<le> u)
           \<and> (b = r1 * 2 ^ m \<or> u < smooth_cdf igammac b r1)
           \<and> 0 \<le> a \<and> a < b \<and> b \<le> r1 * 2 ^ m
           \<and> b - a = r1 * 2 ^ m / 2 ^ (15 - m)
           \<and> Poisson_forward igammac int_bits \<lparr>rate = FArray [] [r]\<rparr> U = Inr (fshape U, ks)
           \<and> length ks = length (ravel U)
           \<and> ks ! i = min \<lfloor>(a + b) / 2\<rfloor> (2 ^ (int_bits - 1) - 1)"
proof -
  have pos: "0 < r1"
    by (simp add: r1 max_def)
  define res where
    "res = scan (fixed_point_update igammac u r1) (0, r1, 0, smooth_cdf igammac r1 r1) [0..<15]"
  obtain a b f_a f_b x_results where res_eq: "res = ((a, b, f_a, f_b), x_results)"
    by (metis surj_pair)
  obtain m where inv: "search_invariant igammac u r1 15 m (fst res)"
    using search_invariant_scan [OF pos, of igammac u 15] unfolding res_def by blast
  have all: "m \<le> 15
        \<and> (\<forall>j<m. smooth_cdf igammac (r1 * 2 ^ j) r1 < u)
        \<and> (m < 15 \<longrightarrow> u \<le> smooth_cdf igammac (r1 * 2 ^ m) r1 \<and> u \<le> f_b)
        \<and> (m = 15 \<longrightarrow> a = 0 \<and> b = r1 * 2 ^ m)
        \<and> f_b = smooth_cdf igammac b r1
        \<and> (a = 0 \<or> smooth_cdf igammac a r1 \<le> u)
        \<and> (b = r1 * 2 ^ m \<or> u < smooth_cdf igammac b r1)
        \<and> 0 \<le> a \<and> a < b \<and> b \<le> r1 * 2 ^ m
        \<and> b - a = r1 * 2 ^ m / 2 ^ (15 - m)"
    using inv unfolding res_eq fst_conv search_invariant_def split_conv by blast
  have len: "length x_results = 15"
    using length_scan [of "fixed_point_update igammac u r1" "(0, r1, 0, smooth_cdf igammac r1 r1)"
                          "[0..<15]"]
    unfolding res_def [symmetric] res_eq by simp
  have ends: "(a, b) = (spec_bracket_step igammac u r1 ^^ 15) (0, r1)"
    using scan_follows_spec [OF pos, of igammac u 15] unfolding res_def [symmetric] res_eq
    by simp
  have outs: "\<forall>k<15. x_results ! k
                = midpoint_of ((spec_bracket_step igammac u r1 ^^ Suc k) (0, r1))"
  proof (intro allI impI)
    fix k :: nat assume k: "k < 15"
    from scan_outputs_follow_spec [OF pos k, of igammac u]
    show "x_results ! k = midpoint_of ((spec_bracket_step igammac u r1 ^^ Suc k) (0, r1))"
      unfolding res_def [symmetric] res_eq by simp
  qed
  define ks where
    "ks = map (\<lambda>u. astype_int int_bits
                 (midpoint_of (case fst (scan (fixed_point_update igammac u r1)
                                 (0, r1, 0, smooth_cdf igammac r1 r1) [0..<15]) of
                                (a, b, f_a, f_b) \<Rightarrow> (a, b))))
              (ravel U)"
  have fwd: "Poisson_forward igammac int_bits \<lparr>rate = FArray [] [r]\<rparr> U = Inr (fshape U, ks)"
    unfolding ks_def r1 by (rule Poisson_forward_scalar [OF U])
  have mid_pos: "0 \<le> (a + b) / 2"
    using all by simp
  have "ks ! i = astype_int int_bits ((a + b) / 2)"
    using i res_eq unfolding ks_def u [symmetric] res_def
    by (simp add: u [symmetric] midpoint_of_def)
  then have at: "ks ! i = min \<lfloor>(a + b) / 2\<rfloor> (2 ^ (int_bits - 1) - 1)"
    by (simp add: astype_int_positive [OF mid_pos])
  show ?thesis
  proof (intro exI conjI)
    show "scan (fixed_point_update igammac u r1) (0, r1, 0, smooth_cdf igammac r1 r1) [0..<15]
            = ((a, b, f_a, f_b), x_results)"
      using res_eq by (simp add: res_def)
    show "length x_results = 15" by (rule len)
    show "(a, b) = (spec_bracket_step igammac u r1 ^^ 15) (0, r1)" by (rule ends)
    show "\<forall>k<15. x_results ! k
            = midpoint_of ((spec_bracket_step igammac u r1 ^^ Suc k) (0, r1))" by (rule outs)
    show "m \<le> 15" using all by blast
    show "\<forall>j<m. smooth_cdf igammac (r1 * 2 ^ j) r1 < u" using all by blast
    show "m < 15 \<longrightarrow> u \<le> smooth_cdf igammac (r1 * 2 ^ m) r1 \<and> u \<le> smooth_cdf igammac b r1"
      using all by auto
    show "a = 0 \<or> smooth_cdf igammac a r1 \<le> u" using all by blast
    show "b = r1 * 2 ^ m \<or> u < smooth_cdf igammac b r1" using all by blast
    show "0 \<le> a" "a < b" "b \<le> r1 * 2 ^ m" using all by blast+
    show "b - a = r1 * 2 ^ m / 2 ^ (15 - m)" using all by blast
    show "Poisson_forward igammac int_bits \<lparr>rate = FArray [] [r]\<rparr> U = Inr (fshape U, ks)"
      by (rule fwd)
    show "length ks = length (ravel U)" by (simp add: ks_def)
    show "ks ! i = min \<lfloor>(a + b) / 2\<rfloor> (2 ^ (int_bits - 1) - 1)" by (rule at)
  qed
qed

lemma step_igammac_update:
  "fixed_point_update step_igammac U r (a, b, f_a, f_b) i =
     (if U \<le> f_b
      then (if U < step_igammac ((a + b) / 2 + 1) r
            then ((a, (a + b) / 2, f_a, step_igammac ((a + b) / 2 + 1) r), (a + (a + b) / 2) / 2)
            else (((a + b) / 2, b, step_igammac ((a + b) / 2 + 1) r, f_b), ((a + b) / 2 + b) / 2))
      else ((a, b * 2, f_a, step_igammac (b * 2 + 1) r), (a + b * 2) / 2))"
  by (simp add: fixed_point_update_def smooth_cdf_def Let_def)

lemma example_run:
  "Poisson_forward step_igammac 32 \<lparr>rate = FArray [] [3 / 2]\<rparr> two_targets = Inr ([2], [1, 1])"
proof -
  have U: "fshape two_targets = [] \<and> length (ravel two_targets) = 1 \<or> 1 < length (ravel two_targets)"
    by (simp add: two_targets_def)
  show ?thesis
    unfolding Poisson_forward_scalar [OF U]
    by (simp add: two_targets_def midpoint_of_def step_igammac_update
          smooth_cdf_def step_igammac_def astype_int_def upt_rec)
qed

text \<open>
  A target of one element that is not a scalar is refused: the first update would give the
  state of the scan the shape of the target.
\<close>

lemma Poisson_forward_one_element_array:
  "Poisson_forward igammac int_bits \<lparr>rate = FArray [] [r]\<rparr> (FArray [1] [u])
     = Inl (TypeError ''scan carry input and carry output must have equal types'')"
  by (simp add: Poisson_forward_def Poisson_quantile_def poisson_quantile_def
        poisson_quantile_bisection_def np_size_def bisection_scalar_def)

theorem Poisson_forward_fixed_bisection_witness:
  "(3 / 2 :: real) = max (3 / 2) (1 / 100000)
   \<and> (fshape two_targets = [] \<and> length (ravel two_targets) = 1 \<or> 1 < length (ravel two_targets))
   \<and> 0 < length (ravel two_targets)
   \<and> (1 / 2 :: real) = ravel two_targets ! 0
   \<and> (\<exists>m a b f_a f_b x_results ks.
           scan (fixed_point_update step_igammac (1 / 2) (3 / 2))
                (0, 3 / 2, 0, smooth_cdf step_igammac (3 / 2) (3 / 2)) [0..<15]
             = ((a, b, f_a, f_b), x_results)
           \<and> length x_results = 15
           \<and> (a, b) = (spec_bracket_step step_igammac (1 / 2) (3 / 2) ^^ 15) (0, 3 / 2)
           \<and> (\<forall>k<15. x_results ! k
                       = midpoint_of ((spec_bracket_step step_igammac (1 / 2) (3 / 2) ^^ Suc k) (0, 3 / 2)))
           \<and> m \<le> 15
           \<and> (\<forall>j<m. smooth_cdf step_igammac (3 / 2 * 2 ^ j) (3 / 2) < 1 / 2)
           \<and> (m < 15 \<longrightarrow> 1 / 2 \<le> smooth_cdf step_igammac (3 / 2 * 2 ^ m) (3 / 2)
                           \<and> 1 / 2 \<le> smooth_cdf step_igammac b (3 / 2))
           \<and> (a = 0 \<or> smooth_cdf step_igammac a (3 / 2) \<le> 1 / 2)
           \<and> (b = 3 / 2 * 2 ^ m \<or> 1 / 2 < smooth_cdf step_igammac b (3 / 2))
           \<and> 0 \<le> a \<and> a < b \<and> b \<le> 3 / 2 * 2 ^ m
           \<and> b - a = 3 / 2 * 2 ^ m / 2 ^ (15 - m)
           \<and> Poisson_forward step_igammac 32 \<lparr>rate = FArray [] [3 / 2]\<rparr> two_targets
               = Inr (fshape two_targets, ks)
           \<and> length ks = length (ravel two_targets)
           \<and> ks ! 0 = min \<lfloor>(a + b) / 2\<rfloor> (2 ^ (32 - 1) - 1))
   \<and> Poisson_forward step_igammac 32 \<lparr>rate = FArray [] [3 / 2]\<rparr> two_targets = Inr ([2], [1, 1])"
proof -
  have h: "(3 / 2 :: real) = max (3 / 2) (1 / 100000)"
    by simp
  have U: "fshape two_targets = [] \<and> length (ravel two_targets) = 1 \<or> 1 < length (ravel two_targets)"
    by (simp add: two_targets_def)
  have i: "0 < length (ravel two_targets)"
    by (simp add: two_targets_def)
  have u: "(1 / 2 :: real) = ravel two_targets ! 0"
    by (simp add: two_targets_def)
  note run = Poisson_forward_fixed_bisection
               [where igammac = step_igammac and int_bits = 32, OF h U i u]
  show ?thesis
    by (rule conjI [OF h conjI [OF U conjI [OF i conjI [OF u conjI [OF run example_run]]]]])
qed

section \<open>Properties of the serialisation bridge\<close>

lemma rsplit_dot_class_path:
  "CHR ''.'' \<notin> set c \<Longrightarrow> rsplit_dot (m @ CHR ''.'' # c) = Some (m, c)"
proof -
  assume c: "CHR ''.'' \<notin> set c"
  have split: "takeWhile P (xs @ y # ys) = xs \<and> dropWhile P (xs @ y # ys) = y # ys"
    if "\<forall>x\<in>set xs. P x" and "\<not> P y" for P and xs ys :: string and y
    using that by (induction xs) simp_all
  have "\<forall>x\<in>set (rev c). x \<noteq> CHR ''.''"
    using c by auto
  from split [OF this, of "CHR ''.''" "rev m"]
  have tw: "takeWhile (\<lambda>ch. ch \<noteq> CHR ''.'') (rev c @ CHR ''.'' # rev m) = rev c"
    and dw: "dropWhile (\<lambda>ch. ch \<noteq> CHR ''.'') (rev c @ CHR ''.'' # rev m) = CHR ''.'' # rev m"
    by simp_all
  show ?thesis
    by (simp add: rsplit_dot_def tw dw)
qed

lemma conforms_infer_shape:
  "conforms t s \<Longrightarrow> 0 \<notin> set (butlast s) \<Longrightarrow> infer_shape t = s \<and> rectangular t"
proof (induction t arbitrary: s)
  case (Elem x)
  then show ?case by simp
next
  case (Fields xs)
  then show ?case by simp
next
  case (Axis ts)
  from Axis.prems(1) obtain d ds where s: "s = d # ds" and len: "length ts = d"
    and kids: "list_all (\<lambda>t. conforms t ds) ts"
    by (cases s) auto
  show ?case
  proof (cases ts)
    case Nil
    with len have "d = 0" by simp
    with Axis.prems(2) s have "ds = []"
      by (cases ds) auto
    with Nil s \<open>d = 0\<close> show ?thesis by simp
  next
    case (Cons t ts')
    have ds0: "0 \<notin> set (butlast ds)"
      using Axis.prems(2) s by (cases ds) (auto split: if_splits)
    have each: "infer_shape u = ds \<and> rectangular u" if "u \<in> set ts" for u
      using Axis.IH [OF that _ ds0] kids that by (simp add: list_all_iff)
    then have "infer_shape t = ds"
      using Cons by simp
    moreover have "list_all rectangular ts"
      using each by (simp add: list_all_iff)
    moreover have "list_all (\<lambda>u. infer_shape u = infer_shape (hd ts)) ts"
      using each Cons by (simp add: list_all_iff)
    ultimately show ?thesis
      using Cons s len by auto
  qed
qed

lemma to_tensor_tolist: "scalars t \<Longrightarrow> to_tensor (tolist t) = Some t"
proof (induction t)
  case (Elem x)
  then show ?case by simp
next
  case (Fields xs)
  then show ?case by simp
next
  case (Axis ts)
  then have "to_tensors (map tolist ts) = Some ts"
    by (induction ts) simp_all
  then show ?case by simp
qed

lemma np_dtype_numeric: "s \<in> set numeric_names \<Longrightarrow> np_dtype s = Inr (Named s)"
  by (simp add: np_dtype_def)

lemma serialise_is_str [simp]:
  "serialise_namedtuple v = PyStr tag \<longleftrightarrow> v = PyStr tag"
  by (cases v) auto

lemma tagged_serialised [simp]:
  "tagged (map (\<lambda>(k, v). (k, serialise_namedtuple v)) kvs) tag = tagged kvs tag"
  by (auto simp: tagged_def map_of_map)

lemma map_of_kwargs:
  "map_of (map (\<lambda>(k, v). (KStr k, g v)) fs) (KStr f) = map_option g (map_of fs f)"
  by (induction fs) auto

lemma construct_fields:
  assumes d: "distinct (map fst fs)"
  shows "construct m c (map fst fs) (map (\<lambda>(k, v). (KStr k, g v)) fs)
           = Inr (NamedTuple m c (map (\<lambda>(k, v). (k, g v)) fs))"
proof -
  define kwargs where "kwargs = map (\<lambda>(k, v). (KStr k, g v)) fs"
  have strs: "list_all (\<lambda>(k, v). case k of KStr f \<Rightarrow> True | _ \<Rightarrow> False) kwargs"
    by (auto simp: kwargs_def list_all_iff)
  have known: "list_all (\<lambda>(k, v). k \<in> KStr ` set (map fst fs)) kwargs"
    by (force simp: kwargs_def list_all_iff)
  have look: "map_of kwargs (KStr f) = Some (g v)" if "(f, v) \<in> set fs" for f v
    using that d by (simp add: kwargs_def map_of_kwargs)
  have "those (map (\<lambda>f. map_option (Pair f) (map_of kwargs (KStr f))) (map fst fs'))
          = Some (map (\<lambda>(k, v). (k, g v)) fs')" if "set fs' \<subseteq> set fs" for fs'
    using that by (induction fs') (auto simp: look)
  from this [of fs] strs known show ?thesis
    by (simp add: construct_def kwargs_def)
qed

lemma np_array_tolist:
  assumes "s \<in> set numeric_names" and "scalars t" and "conforms t sh" and "0 \<notin> set (butlast sh)"
  shows "np_array (tolist t) (PyStr (dtype_str (Named s))) = Inr (Ndarray Builtin (Named s) sh t)"
  using conforms_infer_shape [OF assms(3,4)] assms(1,2)
  by (simp add: np_array_def to_tensor_tolist np_dtype_numeric)

lemma roundtrip_general:
  "restorable reg v \<Longrightarrow> deserialise_namedtuple reg (serialise_namedtuple v) = Inr (detuple v)"
proof (induction v)
  case (NamedTuple m c fs)
  have items: "deserialise_items reg (map (\<lambda>(k, v). (KStr k, serialise_namedtuple v)) fs')
                 = Inr (map (\<lambda>(k, v). (KStr k, detuple v)) fs')"
    if "set fs' \<subseteq> set fs" for fs'
    using that
  proof (induction fs')
    case Nil
    then show ?case by simp
  next
    case (Cons kv fs')
    obtain k v where kv: "kv = (k, v)" by (cases kv)
    with Cons.prems have mem: "(k, v) \<in> set fs" by simp
    then have "restorable reg v"
      using NamedTuple.prems by (auto simp: list_all_iff)
    with NamedTuple.IH [of "(k, v)" v] mem
    have "deserialise_namedtuple reg (serialise_namedtuple v) = Inr (detuple v)"
      by simp
    with Cons show ?case by (simp add: kv)
  qed
  from NamedTuple.prems obtain attrs where
    c: "CHR ''.'' \<notin> set c" and reg: "reg m = Some attrs" and cls: "attrs c = Some (map fst fs)"
    and d: "distinct (map fst fs)"
    by (auto split: option.splits)
  show ?case
    using items [of fs] c reg cls
    by (simp add: tagged_def rsplit_dot_class_path construct_fields [OF d])
next
  case (Ndarray cls dt sh t)
  then obtain s where dt: "dt = Named s" and s: "s \<in> set numeric_names"
    by (cases dt) auto
  from Ndarray have rest: "cls = Builtin" "scalars t" "conforms t sh" "0 \<notin> set (butlast sh)"
    by simp_all
  show ?case
    using np_array_tolist [OF s rest(2,3,4)]
    by (simp add: dt rest(1) tagged_def deserialise_ndarray_def)
next
  case (PyList cls xs)
  have "deserialise_list reg (map serialise_namedtuple xs') = Inr (map detuple xs')"
    if "set xs' \<subseteq> set xs" for xs'
    using that PyList by (induction xs') (auto simp: list_all_iff)
  from this [of xs] PyList.prems show ?case by simp
next
  case (PyTuple xs)
  have "deserialise_list reg (map serialise_namedtuple xs') = Inr (map detuple xs')"
    if "set xs' \<subseteq> set xs" for xs'
    using that PyTuple by (induction xs') (auto simp: list_all_iff)
  from this [of xs] show ?case by simp
next
  case (PyDict cls kvs)
  have items: "deserialise_items reg (map (\<lambda>(k, v). (k, serialise_namedtuple v)) kvs')
                 = Inr (map (\<lambda>(k, v). (k, detuple v)) kvs')"
    if "set kvs' \<subseteq> set kvs" for kvs'
    using that
  proof (induction kvs')
    case Nil
    then show ?case by simp
  next
    case (Cons kv kvs')
    obtain k v where kv: "kv = (k, v)" by (cases kv)
    with Cons.prems have mem: "(k, v) \<in> set kvs" by simp
    then have "restorable reg v"
      using PyDict.prems by (auto simp: list_all_iff)
    with PyDict.IH [of "(k, v)" v] mem
    have "deserialise_namedtuple reg (serialise_namedtuple v) = Inr (detuple v)"
      by simp
    with Cons show ?case by (simp add: kv)
  qed
  from items [of kvs] PyDict.prems show ?case
    by simp
next
  case (PyStr s)
  then show ?case by simp
next
  case (PyOther x)
  then show ?case by simp
qed

lemma detuple_no_tuple: "no_tuple v \<Longrightarrow> detuple v = v"
proof (induction v)
  case (NamedTuple m c fs)
  have "map (\<lambda>(k, v). (k, detuple v)) fs = fs"
  proof (rule map_idI)
    fix kv assume mem: "kv \<in> set fs"
    obtain k v where kv: "kv = (k, v)" by (cases kv)
    with mem NamedTuple.prems have "no_tuple v" by (auto simp: list_all_iff)
    with NamedTuple.IH [of kv v] mem kv show "(case kv of (k, v) \<Rightarrow> (k, detuple v)) = kv"
      by simp
  qed
  then show ?case by simp
next
  case (PyList cls xs)
  then show ?case by (simp add: list_all_iff map_idI)
next
  case (PyDict cls kvs)
  have "map (\<lambda>(k, v). (k, detuple v)) kvs = kvs"
  proof (rule map_idI)
    fix kv assume mem: "kv \<in> set kvs"
    obtain k v where kv: "kv = (k, v)" by (cases kv)
    with mem PyDict.prems have "no_tuple v" by (auto simp: list_all_iff)
    with PyDict.IH [of kv v] mem kv show "(case kv of (k, v) \<Rightarrow> (k, detuple v)) = kv"
      by simp
  qed
  then show ?case by simp
qed simp_all

lemma no_tuple_detuple: "no_tuple (detuple v)"
  by (induction v) (auto simp: list_all_iff)

lemma no_tuple_tolist: "scalars t \<Longrightarrow> no_tuple (tolist t)"
  by (induction t) (auto simp: list_all_iff)

lemma no_tuple_serialise: "scalar_arrays v \<Longrightarrow> no_tuple (serialise_namedtuple v)"
  by (induction v) (auto simp: list_all_iff no_tuple_tolist)

lemma restorable_scalar_arrays: "restorable reg v \<Longrightarrow> scalar_arrays v"
  by (induction v) (auto simp: list_all_iff)

lemma serialise_detuple: "serialise_namedtuple (detuple v) = serialise_namedtuple v"
  by (induction v) (auto simp: comp_def split_beta)

text \<open>
  Claim C9 as stated fails on four kinds of value. A map that itself has the item \<^verbatim>\<open>'type'\<close>
  set to \<^verbatim>\<open>'__ndarray__'\<close> is serialised as it is and comes back as an array. An array of
  shape \<^verbatim>\<open>(0, 3)\<close> is serialised with the data \<^verbatim>\<open>[]\<close> and comes back with the shape \<^verbatim>\<open>(0,)\<close>.
  An array of a structured element type is serialised with the string of its fields, which
  numpy does not read back: deserialising raises \<^verbatim>\<open>TypeError\<close>. An instance of a subclass of
  \<^verbatim>\<open>dict\<close> comes back as an instance of \<^verbatim>\<open>dict\<close> itself.
\<close>

theorem serialise_roundtrip_counterexample:
  "deserialise_namedtuple (\<lambda>m. None) (serialise_namedtuple tagged_map)
     = Inr (Ndarray Builtin (Named ''int64'') [2] (Axis [Elem 1, Elem 2]))
   \<and> deserialise_namedtuple (\<lambda>m. None) (serialise_namedtuple tagged_map) \<noteq> Inr tagged_map
   \<and> conforms (Axis [] :: int tensor) [0, 3]
   \<and> deserialise_namedtuple (\<lambda>m. None) (serialise_namedtuple empty_rows)
     = Inr (Ndarray Builtin (Named ''float64'') [0] (Axis []))
   \<and> deserialise_namedtuple (\<lambda>m. None) (serialise_namedtuple empty_rows) \<noteq> Inr empty_rows
   \<and> deserialise_namedtuple (\<lambda>m. None) (serialise_namedtuple record_array)
     = Inl (TypeError ''data type not understood'')
   \<and> deserialise_namedtuple (\<lambda>m. None) (serialise_namedtuple ordered_map)
     = Inr (PyDict Builtin [(KStr ''a'', PyOther 1)])
   \<and> deserialise_namedtuple (\<lambda>m. None) (serialise_namedtuple ordered_map) \<noteq> Inr ordered_map"
  by (simp add: tagged_map_def empty_rows_def record_array_def ordered_map_def tagged_def
        deserialise_ndarray_def np_array_def np_dtype_def numeric_names_def quoted_def)

text \<open>
  Claim C9, as the code has it. A value made of named records, arrays, lists and maps, with
  no tuple, is restored by deserialising what was serialised, provided that the class of
  every named record is resolved in the running process; that every list, map and array is
  an instance of \<^verbatim>\<open>list\<close>, \<^verbatim>\<open>dict\<close> and \<^verbatim>\<open>numpy.ndarray\<close> itself and not of a subclass; that no
  map has the item \<^verbatim>\<open>'type'\<close> set to \<^verbatim>\<open>'__namedtuple__'\<close> or \<^verbatim>\<open>'__ndarray__'\<close>; and that every
  array has a boolean, integer, floating or complex element type of fixed size and no axis
  of length 0 before its last axis.
\<close>

theorem serialise_roundtrip:
  assumes "restorable reg v" and "no_tuple v"
  shows "deserialise_namedtuple reg (serialise_namedtuple v) = Inr v"
  using roundtrip_general [OF assms(1)] detuple_no_tuple [OF assms(2)] by simp

theorem serialise_roundtrip_witness:
  "restorable example_registry example_value \<and> no_tuple example_value
   \<and> deserialise_namedtuple example_registry (serialise_namedtuple example_value) = Inr example_value"
proof -
  have r: "restorable example_registry example_value"
    by (simp add: example_registry_def example_value_def tagged_def numeric_names_def)
  have n: "no_tuple example_value"
    by (simp add: example_value_def)
  from serialise_roundtrip [OF r n] r n show ?thesis by simp
qed

text \<open>
  Claim C10 as stated fails for a tuple that is a key of a map: keys are not walked, and the
  map \<^verbatim>\<open>{(1, 2): 3}\<close> is serialised and restored with its tuple.
\<close>

theorem tuple_key_counterexample:
  "serialise_namedtuple tuple_keyed_map = PyDict Builtin [(KTuple [KOther 1, KOther 2], PyOther 3)]
   \<and> deserialise_namedtuple (\<lambda>m. None) (serialise_namedtuple tuple_keyed_map)
     = Inr (PyDict Builtin [(KTuple [KOther 1, KOther 2], PyOther 3)])"
  by (simp add: tuple_keyed_map_def tagged_def)

text \<open>
  Claim C10, as the code has it. A tuple is serialised as the list of its serialised entries,
  and deserialising a tuple gives what deserialising the list of its entries gives. A value
  is serialised as the same value with lists for its tuples is. What is serialised has no
  tuple among its elements, values and fields, but for the tuples that \<^verbatim>\<open>tolist\<close> makes of the
  elements of an array of a structured type; and for a value the bridge can restore,
  deserialising what was serialised gives the value with every tuple among its elements,
  values and fields, at any depth, replaced by the list of the same entries. The keys of a
  map are left as they are.
\<close>

theorem tuples_become_lists:
  "serialise_namedtuple (PyTuple xs) = PyList Builtin (map serialise_namedtuple xs)
   \<and> deserialise_namedtuple reg (PyTuple xs) = deserialise_namedtuple reg (PyList Builtin xs)
   \<and> serialise_namedtuple (detuple v) = serialise_namedtuple v
   \<and> (scalar_arrays v \<longrightarrow> no_tuple (serialise_namedtuple v))
   \<and> (restorable reg v \<longrightarrow>
        deserialise_namedtuple reg (serialise_namedtuple v) = Inr (detuple v)
        \<and> no_tuple (detuple v))"
  by (simp add: no_tuple_serialise no_tuple_detuple roundtrip_general serialise_detuple)

theorem tuples_become_lists_witness:
  "restorable example_registry
     (PyTuple [PyOther (1::int), PyTuple [PyOther 2, example_value]])
   \<and> scalar_arrays (PyTuple [PyOther (1::int), PyTuple [PyOther 2, example_value]])
   \<and> no_tuple (serialise_namedtuple (PyTuple [PyOther (1::int), PyTuple [PyOther 2, example_value]]))
   \<and> deserialise_namedtuple example_registry
        (serialise_namedtuple (PyTuple [PyOther 1, PyTuple [PyOther 2, example_value]]))
      = Inr (PyList Builtin [PyOther 1, PyList Builtin [PyOther 2, example_value]])"
proof -
  have r: "restorable example_registry
             (PyTuple [PyOther (1::int), PyTuple [PyOther 2, example_value]])"
    by (simp add: example_registry_def example_value_def tagged_def numeric_names_def)
  have s: "scalar_arrays (PyTuple [PyOther (1::int), PyTuple [PyOther 2, example_value]])"
    by (simp add: example_value_def)
  have d: "detuple example_value = example_value"
    by (simp add: example_value_def)
  from tuples_become_lists [of "[]" example_registry
         "PyTuple [PyOther 1, PyTuple [PyOther 2, example_value]]"] r s d
  show ?thesis by simp
qed

end
